theory Spec2Isabelle
  imports Main "HOL-Library.Word"
begin

unbundle bit_operations_syntax

section \<open>Error values and control constants\<close>

text \<open>
  \<open>gcry_err_code_t\<close> and \<open>gcry_error_t\<close> are C integers; zero is success.
  The numeric values come from the headers of libgpg-error and gcrypt.h, which
  cipher/mac.c only includes.
\<close>

type_synonym gcry_err_code_t = "32 word"
type_synonym gcry_error_t = "32 word"

definition GPG_ERR_NO_ERROR :: gcry_err_code_t where
  "GPG_ERR_NO_ERROR = 0"

definition GPG_ERR_INV_ARG :: gcry_err_code_t where
  "GPG_ERR_INV_ARG = 45"

definition GPG_ERR_INV_OP :: gcry_err_code_t where
  "GPG_ERR_INV_OP = 61"

definition GPG_ERR_MAC_ALGO :: gcry_err_code_t where
  "GPG_ERR_MAC_ALGO = 197"

definition GPG_ERR_ENOMEM :: gcry_err_code_t where
  "GPG_ERR_ENOMEM = 32854"

definition GPG_ERR_SOURCE_DEFAULT :: "32 word" where
  "GPG_ERR_SOURCE_DEFAULT = 1"

text \<open>
  \<open>gpg_err_make\<close> of gpg-error.h: the source in bits 24..30, the code in the low
  16 bits, and plain zero for success.
\<close>

definition gpg_err_make :: "32 word \<Rightarrow> gcry_err_code_t \<Rightarrow> gcry_error_t" where
  "gpg_err_make source code =
     (if code = GPG_ERR_NO_ERROR then GPG_ERR_NO_ERROR
      else push_bit 24 (source AND 127) OR (code AND 65535))"

definition gpg_error :: "gcry_err_code_t \<Rightarrow> gcry_error_t" where
  "gpg_error code = gpg_err_make GPG_ERR_SOURCE_DEFAULT code"

definition gcry_error :: "gcry_err_code_t \<Rightarrow> gcry_error_t" where
  "gcry_error code = gpg_err_make GPG_ERR_SOURCE_DEFAULT code"

definition gpg_err_code :: "gcry_error_t \<Rightarrow> gcry_err_code_t" where
  "gpg_err_code err = err AND 65535"

definition GCRYCTL_RESET :: int where
  "GCRYCTL_RESET = 4"

definition GCRYCTL_GET_KEYLEN :: int where
  "GCRYCTL_GET_KEYLEN = 6"

definition GCRYCTL_TEST_ALGO :: int where
  "GCRYCTL_TEST_ALGO = 8"

definition GCRY_MAC_FLAG_SECURE :: "32 word" where
  "GCRY_MAC_FLAG_SECURE = 1"

text \<open>
  Modelled from the spec: the two handle tags of mac-internal.h, one sentinel per
  pool; the dispatcher only stores them.
\<close>

definition CTX_MAGIC_NORMAL :: "32 word" where
  "CTX_MAGIC_NORMAL = 0x59d9b8af"

definition CTX_MAGIC_SECURE :: "32 word" where
  "CTX_MAGIC_SECURE = 0x12c27cd0"


section \<open>Handles, descriptors and capability tables\<close>

type_synonym buffer = "8 word list"

text \<open>
  \<open>struct gcry_mac_handle\<close>.  The descriptor pointer \<open>spec\<close> is the position of the
  descriptor in \<open>mac_list\<close> (\<open>None\<close> is the null pointer); \<open>u\<close> is the
  algorithm-specific context, whose all-zero value is \<open>0\<close>.
\<close>

record 'c gcry_mac_handle =
  hd_magic :: "32 word"
  hd_spec :: "nat option"
  hd_algo :: int
  hd_gcry_ctx :: "nat option"
  hd_u :: 'c

text \<open>
  \<open>gcry_mac_spec_ops_t\<close>: each entry is a function pointer, \<open>None\<close> when null.
  A callback receives the handle and returns it as it left it; a data pointer is
  \<open>None\<close> when null and the bytes it points to otherwise.
\<close>

record 'c gcry_mac_spec_ops =
  ops_open :: "('c gcry_mac_handle \<Rightarrow> gcry_err_code_t \<times> 'c gcry_mac_handle) option"
  ops_close :: "('c gcry_mac_handle \<Rightarrow> 'c gcry_mac_handle) option"
  ops_setkey :: "('c gcry_mac_handle \<Rightarrow> buffer option \<Rightarrow> nat
                    \<Rightarrow> gcry_err_code_t \<times> 'c gcry_mac_handle) option"
  ops_setiv :: "('c gcry_mac_handle \<Rightarrow> buffer option \<Rightarrow> nat
                    \<Rightarrow> gcry_err_code_t \<times> 'c gcry_mac_handle) option"
  ops_reset :: "('c gcry_mac_handle \<Rightarrow> gcry_err_code_t \<times> 'c gcry_mac_handle) option"
  ops_write :: "('c gcry_mac_handle \<Rightarrow> buffer option \<Rightarrow> nat
                    \<Rightarrow> gcry_err_code_t \<times> 'c gcry_mac_handle) option"
  ops_read :: "('c gcry_mac_handle \<Rightarrow> buffer \<Rightarrow> nat
                    \<Rightarrow> gcry_err_code_t \<times> 'c gcry_mac_handle \<times> buffer \<times> nat) option"
  ops_verify :: "('c gcry_mac_handle \<Rightarrow> buffer \<Rightarrow> nat
                    \<Rightarrow> gcry_err_code_t \<times> 'c gcry_mac_handle) option"
  ops_get_maclen :: "(int \<Rightarrow> nat) option"
  ops_get_keylen :: "(int \<Rightarrow> nat) option"

text \<open>\<open>gcry_mac_spec_t\<close>; \<open>ops\<close> is a pointer to the capability table.\<close>

record 'c gcry_mac_spec =
  algo :: int
  flags_disabled :: bool
  name :: string
  ops :: "'c gcry_mac_spec_ops option"


section \<open>The registry\<close>

text \<open>
  \<open>mac_list\<close> is a null-terminated array of descriptor pointers whose entries
  depend on the build; it is a parameter \<open>ml\<close> here, the list of the descriptors
  before the terminator.
\<close>

fun spec_from_algo_at :: "nat \<Rightarrow> 'c gcry_mac_spec list \<Rightarrow> int \<Rightarrow> nat option" where
  "spec_from_algo_at idx [] a = None"
| "spec_from_algo_at idx (spec # rest) a =
     (if a = algo spec then Some idx else spec_from_algo_at (Suc idx) rest a)"

definition spec_from_algo :: "'c gcry_mac_spec list \<Rightarrow> int \<Rightarrow> nat option" where
  "spec_from_algo ml a = spec_from_algo_at 0 ml a"

text \<open>
  \<open>stricmp\<close> is the C library's \<open>strcasecmp\<close>: bytes are compared after
  \<open>tolower\<close>, and only the sign of a nonzero result is specified.
\<close>

definition tolower :: "char \<Rightarrow> char" where
  "tolower c =
     (if (65::nat) \<le> of_char c \<and> of_char c \<le> (90::nat)
      then char_of (of_char c + (32::nat)) else c)"

fun stricmp :: "string \<Rightarrow> string \<Rightarrow> int" where
  "stricmp [] [] = 0"
| "stricmp [] (b # bs) = - 1"
| "stricmp (a # as) [] = 1"
| "stricmp (a # as) (b # bs) =
     (if tolower a = tolower b then stricmp as bs
      else if (of_char (tolower a) :: nat) < of_char (tolower b) then - 1 else 1)"

fun spec_from_name_at :: "nat \<Rightarrow> 'c gcry_mac_spec list \<Rightarrow> string \<Rightarrow> nat option" where
  "spec_from_name_at idx [] n = None"
| "spec_from_name_at idx (spec # rest) n =
     (if stricmp n (name spec) = 0 then Some idx else spec_from_name_at (Suc idx) rest n)"

definition spec_from_name :: "'c gcry_mac_spec list \<Rightarrow> string \<Rightarrow> nat option" where
  "spec_from_name ml n = spec_from_name_at 0 ml n"

definition gcry_mac_map_name :: "'c gcry_mac_spec list \<Rightarrow> string option \<Rightarrow> int" where
  "gcry_mac_map_name ml string =
     (case string of
        None \<Rightarrow> 0
      | Some s \<Rightarrow>
          (case spec_from_name ml s of
             Some i \<Rightarrow> algo (ml ! i)
           | None \<Rightarrow> 0))"

definition gcry_mac_algo_name :: "'c gcry_mac_spec list \<Rightarrow> int \<Rightarrow> string" where
  "gcry_mac_algo_name ml algorithm =
     (case spec_from_algo ml algorithm of
        Some i \<Rightarrow> name (ml ! i)
      | None \<Rightarrow> ''?'')"

definition check_mac_algo :: "'c gcry_mac_spec list \<Rightarrow> int \<Rightarrow> gcry_err_code_t" where
  "check_mac_algo ml algorithm =
     (case spec_from_algo ml algorithm of
        Some i \<Rightarrow> if \<not> flags_disabled (ml ! i) then 0 else GPG_ERR_MAC_ALGO
      | None \<Rightarrow> GPG_ERR_MAC_ALGO)"


section \<open>Memory\<close>

text \<open>
  Modelled from the spec: the allocator of g10lib.h is an external service with an
  \<open>alloc\<close>/\<open>alloc_secure\<close>/\<open>free\<close>/\<open>wipe\<close> contract.  Memory holds one
  handle-sized block per address.  \<open>owner\<close> tells which pool a live block came from,
  \<open>room\<close> lists the blocks a pool can still hand out (an allocation from an exhausted
  pool fails), and \<open>trace\<close> records, in order, every call made to the allocator and
  to an algorithm callback.  Releasing a block leaves its bytes as they are.
\<close>

datatype pool = Normal | Secure

datatype callback = Open | Close | Setkey | Setiv | Reset | Write | Read | Verify

datatype event = Alloc pool nat | Called callback nat | Wiped nat | Freed nat

record 'c memory =
  cells :: "nat \<Rightarrow> 'c gcry_mac_handle"
  owner :: "nat \<Rightarrow> pool option"
  room :: "pool \<Rightarrow> nat list"
  trace :: "event list"

definition zero_handle :: "'c::zero gcry_mac_handle" where
  "zero_handle =
     \<lparr>hd_magic = 0, hd_spec = None, hd_algo = 0, hd_gcry_ctx = None, hd_u = 0\<rparr>"

definition calloc_from :: "pool \<Rightarrow> 'c::zero memory \<Rightarrow> nat option \<times> 'c memory" where
  "calloc_from p m =
     (case room m p of
        [] \<Rightarrow> (None, m)
      | a # rest \<Rightarrow>
          (Some a,
           m\<lparr>cells := (cells m)(a := zero_handle),
             owner := (owner m)(a := Some p),
             room := (room m)(p := rest),
             trace := trace m @ [Alloc p a]\<rparr>))"

definition gcry_calloc :: "'c::zero memory \<Rightarrow> nat option \<times> 'c memory" where
  "gcry_calloc m = calloc_from Normal m"

definition gcry_calloc_secure :: "'c::zero memory \<Rightarrow> nat option \<times> 'c memory" where
  "gcry_calloc_secure m = calloc_from Secure m"

definition gcry_free :: "'c memory \<Rightarrow> nat \<Rightarrow> 'c memory" where
  "gcry_free m a = m\<lparr>owner := (owner m)(a := None), trace := trace m @ [Freed a]\<rparr>"

definition wipememory :: "'c::zero memory \<Rightarrow> nat \<Rightarrow> 'c memory" where
  "wipememory m a =
     m\<lparr>cells := (cells m)(a := zero_handle), trace := trace m @ [Wiped a]\<rparr>"

text \<open>
  Modelled from the spec: \<open>gpg_err_code_from_syserror\<close> is read after a failed
  allocation only, where it reports the allocator's out-of-memory condition.
\<close>

definition gpg_err_code_from_syserror :: "'c memory \<Rightarrow> gcry_err_code_t" where
  "gpg_err_code_from_syserror m = GPG_ERR_ENOMEM"

text \<open>
  Running a callback on the handle stored at \<open>a\<close>: the call is recorded and the
  block holds what the callback left there.
\<close>

definition call_hd ::
  "callback \<Rightarrow> nat \<Rightarrow> ('c gcry_mac_handle \<Rightarrow> 'r \<times> 'c gcry_mac_handle) \<Rightarrow> 'c memory
     \<Rightarrow> 'r \<times> 'c memory" where
  "call_hd cb a f m =
     (case f (cells m a) of
        (r, h') \<Rightarrow>
          (r, m\<lparr>cells := (cells m)(a := h'), trace := trace m @ [Called cb a]\<rparr>))"

text \<open>
  \<open>hd->spec->ops\<close>.  The result is \<open>None\<close> where the C expression has no defined
  value: the handle pointer \<open>h\<close> is not a live block, its \<open>spec\<close> is null or points outside the
  registry, or the descriptor's \<open>ops\<close> pointer is null.
\<close>

definition hd_ops ::
  "'c gcry_mac_spec list \<Rightarrow> 'c memory \<Rightarrow> nat \<Rightarrow> 'c gcry_mac_spec_ops option" where
  "hd_ops ml m h =
     (case owner m h of
        None \<Rightarrow> None
      | Some p \<Rightarrow>
          (case hd_spec (cells m h) of
             None \<Rightarrow> None
           | Some i \<Rightarrow> if i < length ml then ops (ml ! i) else None))"


section \<open>Handle lifecycle\<close>

text \<open>
  \<open>mac_open\<close>: \<open>slot\<close> is the content of \<open>*hd\<close> on entry; the result is the error
  code, the content of \<open>*hd\<close> on return and the memory.  The open callback is
  reached through \<open>h->spec\<close>, which was assigned \<open>spec\<close> two lines before.
\<close>

definition mac_open ::
  "'c::zero gcry_mac_spec list \<Rightarrow> 'c memory \<Rightarrow> nat option \<Rightarrow> int \<Rightarrow> bool \<Rightarrow> nat option
     \<Rightarrow> gcry_err_code_t \<times> nat option \<times> 'c memory" where
  "mac_open ml m slot a secure ctx =
     (case spec_from_algo ml a of
        None \<Rightarrow> (GPG_ERR_MAC_ALGO, slot, m)
      | Some i \<Rightarrow>
          if flags_disabled (ml ! i) then (GPG_ERR_MAC_ALGO, slot, m)
          else
            (case ops (ml ! i) of
               None \<Rightarrow> (GPG_ERR_MAC_ALGO, slot, m)
             | Some t \<Rightarrow>
                 if ops_open t = None \<or> ops_write t = None \<or> ops_setkey t = None \<or>
                    ops_read t = None \<or> ops_verify t = None \<or> ops_reset t = None
                 then (GPG_ERR_MAC_ALGO, slot, m)
                 else
                   (case (if secure then gcry_calloc_secure m else gcry_calloc m) of
                      (None, m1) \<Rightarrow> (gpg_err_code_from_syserror m1, slot, m1)
                    | (Some h, m1) \<Rightarrow>
                        (let m2 = m1\<lparr>cells := (cells m1)(h := (cells m1 h)
                                     \<lparr>hd_magic := (if secure then CTX_MAGIC_SECURE
                                                   else CTX_MAGIC_NORMAL),
                                      hd_spec := Some i,
                                      hd_algo := a,
                                      hd_gcry_ctx := ctx\<rparr>)\<rparr>
                         in (case call_hd Open h (the (ops_open t)) m2 of
                               (err, m3) \<Rightarrow>
                                 if err \<noteq> 0 then (err, slot, gcry_free m3 h)
                                 else (err, Some h, m3))))))"

definition mac_reset ::
  "'c gcry_mac_spec list \<Rightarrow> 'c memory \<Rightarrow> nat \<Rightarrow> (gcry_error_t \<times> 'c memory) option" where
  "mac_reset ml m h =
     (case hd_ops ml m h of
        None \<Rightarrow> None
      | Some t \<Rightarrow>
          (case ops_reset t of
             Some f \<Rightarrow> Some (call_hd Reset h f m)
           | None \<Rightarrow> Some (0, m)))"

text \<open>\<open>mac_close\<close> returns nothing; \<open>None\<close> stands for a call on an invalid handle.\<close>

definition mac_close ::
  "'c::zero gcry_mac_spec list \<Rightarrow> 'c memory \<Rightarrow> nat \<Rightarrow> 'c memory option" where
  "mac_close ml m h =
     (case hd_ops ml m h of
        None \<Rightarrow> None
      | Some t \<Rightarrow>
          (let m1 = (case ops_close t of
                       Some f \<Rightarrow> snd (call_hd Close h (\<lambda>x. ((), f x)) m)
                     | None \<Rightarrow> m)
           in Some (gcry_free (wipememory m1 h) h)))"


section \<open>Dispatch\<close>

definition mac_setkey ::
  "'c gcry_mac_spec list \<Rightarrow> 'c memory \<Rightarrow> nat \<Rightarrow> buffer option \<Rightarrow> nat
     \<Rightarrow> (gcry_error_t \<times> 'c memory) option" where
  "mac_setkey ml m h key keylen =
     (case hd_ops ml m h of
        None \<Rightarrow> None
      | Some t \<Rightarrow>
          (case ops_setkey t of
             None \<Rightarrow> Some (GPG_ERR_INV_ARG, m)
           | Some f \<Rightarrow>
               if keylen > 0 \<and> key = None then Some (GPG_ERR_INV_ARG, m)
               else Some (call_hd Setkey h (\<lambda>x. f x key keylen) m)))"

definition mac_setiv ::
  "'c gcry_mac_spec list \<Rightarrow> 'c memory \<Rightarrow> nat \<Rightarrow> buffer option \<Rightarrow> nat
     \<Rightarrow> (gcry_error_t \<times> 'c memory) option" where
  "mac_setiv ml m h iv ivlen =
     (case hd_ops ml m h of
        None \<Rightarrow> None
      | Some t \<Rightarrow>
          (case ops_setiv t of
             None \<Rightarrow> Some (GPG_ERR_INV_ARG, m)
           | Some f \<Rightarrow>
               if ivlen > 0 \<and> iv = None then Some (GPG_ERR_INV_ARG, m)
               else Some (call_hd Setiv h (\<lambda>x. f x iv ivlen) m)))"

definition mac_write ::
  "'c gcry_mac_spec list \<Rightarrow> 'c memory \<Rightarrow> nat \<Rightarrow> buffer option \<Rightarrow> nat
     \<Rightarrow> (gcry_error_t \<times> 'c memory) option" where
  "mac_write ml m h inbuf inlen =
     (case hd_ops ml m h of
        None \<Rightarrow> None
      | Some t \<Rightarrow>
          (case ops_write t of
             None \<Rightarrow> Some (GPG_ERR_INV_ARG, m)
           | Some f \<Rightarrow>
               if inlen > 0 \<and> inbuf = None then Some (GPG_ERR_INV_ARG, m)
               else Some (call_hd Write h (\<lambda>x. f x inbuf inlen) m)))"

text \<open>
  \<open>mac_read\<close>: \<open>outbuf\<close> and \<open>outlen\<close> are pointers the callback writes through, so
  both come back with the result.  The three argument tests are evaluated before
  \<open>hd\<close> is dereferenced.
\<close>

definition mac_read ::
  "'c gcry_mac_spec list \<Rightarrow> 'c memory \<Rightarrow> nat \<Rightarrow> buffer option \<Rightarrow> nat option
     \<Rightarrow> (gcry_error_t \<times> 'c memory \<times> buffer option \<times> nat option) option" where
  "mac_read ml m h outbuf outlen =
     (case (outbuf, outlen) of
        (Some b, Some n) \<Rightarrow>
          if n = 0 then Some (GPG_ERR_INV_ARG, m, outbuf, outlen)
          else
            (case hd_ops ml m h of
               None \<Rightarrow> None
             | Some t \<Rightarrow>
                 (case ops_read t of
                    None \<Rightarrow> Some (GPG_ERR_INV_ARG, m, outbuf, outlen)
                  | Some f \<Rightarrow>
                      (case f (cells m h) b n of
                         (err, h', b', n') \<Rightarrow>
                           Some (err,
                                 m\<lparr>cells := (cells m)(h := h'),
                                   trace := trace m @ [Called Read h]\<rparr>,
                                 Some b', Some n'))))
      | _ \<Rightarrow> Some (GPG_ERR_INV_ARG, m, outbuf, outlen))"

definition mac_verify ::
  "'c gcry_mac_spec list \<Rightarrow> 'c memory \<Rightarrow> nat \<Rightarrow> buffer option \<Rightarrow> nat
     \<Rightarrow> (gcry_error_t \<times> 'c memory) option" where
  "mac_verify ml m h buf buflen =
     (case buf of
        None \<Rightarrow> Some (GPG_ERR_INV_ARG, m)
      | Some b \<Rightarrow>
          if buflen = 0 then Some (GPG_ERR_INV_ARG, m)
          else
            (case hd_ops ml m h of
               None \<Rightarrow> None
             | Some t \<Rightarrow>
                 (case ops_verify t of
                    None \<Rightarrow> Some (GPG_ERR_INV_ARG, m)
                  | Some f \<Rightarrow> Some (call_hd Verify h (\<lambda>x. f x b buflen) m))))"


section \<open>Public entry points\<close>

definition gcry_mac_open ::
  "'c::zero gcry_mac_spec list \<Rightarrow> 'c memory \<Rightarrow> int \<Rightarrow> 32 word \<Rightarrow> nat option
     \<Rightarrow> gcry_error_t \<times> nat option \<times> 'c memory" where
  "gcry_mac_open ml m a flags ctx =
     (case (if flags AND NOT GCRY_MAC_FLAG_SECURE \<noteq> 0 then (GPG_ERR_INV_ARG, None, m)
            else mac_open ml m None a (flags AND GCRY_MAC_FLAG_SECURE \<noteq> 0) ctx) of
        (err, h, m') \<Rightarrow> (gpg_error err, if err \<noteq> 0 then None else h, m'))"

definition gcry_mac_close ::
  "'c::zero gcry_mac_spec list \<Rightarrow> 'c memory \<Rightarrow> nat \<Rightarrow> 'c memory option" where
  "gcry_mac_close ml m h = mac_close ml m h"

definition gcry_mac_setkey ::
  "'c gcry_mac_spec list \<Rightarrow> 'c memory \<Rightarrow> nat \<Rightarrow> buffer option \<Rightarrow> nat
     \<Rightarrow> (gcry_error_t \<times> 'c memory) option" where
  "gcry_mac_setkey ml m h key keylen =
     map_option (\<lambda>(err, m'). (gpg_error err, m')) (mac_setkey ml m h key keylen)"

definition gcry_mac_setiv ::
  "'c gcry_mac_spec list \<Rightarrow> 'c memory \<Rightarrow> nat \<Rightarrow> buffer option \<Rightarrow> nat
     \<Rightarrow> (gcry_error_t \<times> 'c memory) option" where
  "gcry_mac_setiv ml m h iv ivlen =
     map_option (\<lambda>(err, m'). (gpg_error err, m')) (mac_setiv ml m h iv ivlen)"

definition gcry_mac_write ::
  "'c gcry_mac_spec list \<Rightarrow> 'c memory \<Rightarrow> nat \<Rightarrow> buffer option \<Rightarrow> nat
     \<Rightarrow> (gcry_error_t \<times> 'c memory) option" where
  "gcry_mac_write ml m h inbuf inlen =
     map_option (\<lambda>(err, m'). (gpg_error err, m')) (mac_write ml m h inbuf inlen)"

definition gcry_mac_read ::
  "'c gcry_mac_spec list \<Rightarrow> 'c memory \<Rightarrow> nat \<Rightarrow> buffer option \<Rightarrow> nat option
     \<Rightarrow> (gcry_error_t \<times> 'c memory \<times> buffer option \<times> nat option) option" where
  "gcry_mac_read ml m h outbuf outlen =
     map_option (\<lambda>(err, r). (gpg_error err, r)) (mac_read ml m h outbuf outlen)"

definition gcry_mac_verify ::
  "'c gcry_mac_spec list \<Rightarrow> 'c memory \<Rightarrow> nat \<Rightarrow> buffer option \<Rightarrow> nat
     \<Rightarrow> (gcry_error_t \<times> 'c memory) option" where
  "gcry_mac_verify ml m h buf buflen =
     map_option (\<lambda>(err, m'). (gpg_error err, m')) (mac_verify ml m h buf buflen)"

definition gcry_mac_get_algo_maclen :: "'c gcry_mac_spec list \<Rightarrow> int \<Rightarrow> nat" where
  "gcry_mac_get_algo_maclen ml a =
     (case spec_from_algo ml a of
        None \<Rightarrow> 0
      | Some i \<Rightarrow>
          (case ops (ml ! i) of
             None \<Rightarrow> 0
           | Some t \<Rightarrow>
               (case ops_get_maclen t of
                  None \<Rightarrow> 0
                | Some f \<Rightarrow> f a)))"

definition gcry_mac_get_algo_keylen :: "'c gcry_mac_spec list \<Rightarrow> int \<Rightarrow> nat" where
  "gcry_mac_get_algo_keylen ml a =
     (case spec_from_algo ml a of
        None \<Rightarrow> 0
      | Some i \<Rightarrow>
          (case ops (ml ! i) of
             None \<Rightarrow> 0
           | Some t \<Rightarrow>
               (case ops_get_keylen t of
                  None \<Rightarrow> 0
                | Some f \<Rightarrow> f a)))"

definition gcry_mac_ctl ::
  "'c gcry_mac_spec list \<Rightarrow> 'c memory \<Rightarrow> nat \<Rightarrow> int \<Rightarrow> buffer option \<Rightarrow> nat
     \<Rightarrow> (gcry_error_t \<times> 'c memory) option" where
  "gcry_mac_ctl ml m h cmd buffer buflen =
     (if cmd = GCRYCTL_RESET
      then map_option (\<lambda>(rc, m'). (gcry_error rc, m')) (mac_reset ml m h)
      else Some (gcry_error GPG_ERR_INV_OP, m))"

text \<open>
  \<open>gcry_mac_algo_info\<close>: \<open>buffer\<close> is only tested for null; \<open>nbytes\<close> is a pointer
  to a \<open>size_t\<close>, returned with the value it holds afterwards.
\<close>

definition gcry_mac_algo_info ::
  "'c gcry_mac_spec list \<Rightarrow> int \<Rightarrow> int \<Rightarrow> buffer option \<Rightarrow> nat option
     \<Rightarrow> gcry_error_t \<times> nat option" where
  "gcry_mac_algo_info ml a what buffer nbytes =
     (if what = GCRYCTL_GET_KEYLEN then
        (if buffer \<noteq> None \<or> nbytes = None then (gcry_error GPG_ERR_INV_ARG, nbytes)
         else
           (let ui = gcry_mac_get_algo_keylen ml a
            in if ui > 0 then (gcry_error GPG_ERR_NO_ERROR, Some ui)
               else (gcry_error GPG_ERR_MAC_ALGO, nbytes)))
      else if what = GCRYCTL_TEST_ALGO then
        (if buffer \<noteq> None \<or> nbytes \<noteq> None then (gcry_error GPG_ERR_INV_ARG, nbytes)
         else (gcry_error (check_mac_algo ml a), nbytes))
      else (gcry_error GPG_ERR_INV_OP, nbytes))"


section \<open>A small registry for concrete runs\<close>

text \<open>
  Six descriptors over a context that is a single counter: a complete one
  without \<open>setiv\<close> and \<open>close\<close>, a disabled one, one whose capability table is
  null, a complete one with a \<open>close\<close> callback, one whose \<open>open\<close> callback
  fails, and one without \<open>reset\<close>.  \<open>fresh_memory\<close> has two blocks left in the
  normal pool and one in the secure pool; \<open>opened_memory\<close> and
  \<open>opened_secure_memory\<close> are what a successful open leaves of it.
\<close>

definition counter_ops :: "nat gcry_mac_spec_ops" where
  "counter_ops =
     \<lparr>ops_open = Some (\<lambda>h. (0, h\<lparr>hd_u := 1\<rparr>)),
      ops_close = None,
      ops_setkey = Some (\<lambda>h key keylen. (0, h\<lparr>hd_u := hd_u h + keylen\<rparr>)),
      ops_setiv = None,
      ops_reset = Some (\<lambda>h. (0, h\<lparr>hd_u := 1\<rparr>)),
      ops_write = Some (\<lambda>h inbuf inlen. (0, h\<lparr>hd_u := hd_u h + inlen\<rparr>)),
      ops_read = Some (\<lambda>h outbuf outlen. (0, h, outbuf, min outlen 4)),
      ops_verify = Some (\<lambda>h buf buflen. (if buflen = 4 then 0 else 8, h)),
      ops_get_maclen = Some (\<lambda>a. 4),
      ops_get_keylen = Some (\<lambda>a. 16)\<rparr>"

definition closing_ops :: "nat gcry_mac_spec_ops" where
  "closing_ops = counter_ops\<lparr>ops_close := Some (\<lambda>h. h\<lparr>hd_u := 7\<rparr>)\<rparr>"

definition failing_ops :: "nat gcry_mac_spec_ops" where
  "failing_ops = counter_ops\<lparr>ops_open := Some (\<lambda>h. (GPG_ERR_INV_OP, h))\<rparr>"

definition partial_ops :: "nat gcry_mac_spec_ops" where
  "partial_ops = counter_ops\<lparr>ops_reset := None\<rparr>"

definition sample_list :: "nat gcry_mac_spec list" where
  "sample_list =
     [\<lparr>algo = 101, flags_disabled = False, name = ''HMAC_SHA256'', ops = Some counter_ops\<rparr>,
      \<lparr>algo = 105, flags_disabled = True, name = ''HMAC_SHA1'', ops = Some counter_ops\<rparr>,
      \<lparr>algo = 106, flags_disabled = False, name = ''HMAC_MD5'', ops = None\<rparr>,
      \<lparr>algo = 107, flags_disabled = False, name = ''HMAC_MD4'', ops = Some closing_ops\<rparr>,
      \<lparr>algo = 108, flags_disabled = False, name = ''HMAC_RMD160'', ops = Some failing_ops\<rparr>,
      \<lparr>algo = 109, flags_disabled = False, name = ''HMAC_TIGER'', ops = Some partial_ops\<rparr>]"

definition fresh_memory :: "nat memory" where
  "fresh_memory =
     \<lparr>cells = (\<lambda>a. zero_handle),
      owner = (\<lambda>a. None),
      room = (\<lambda>p. case p of Normal \<Rightarrow> [10, 11] | Secure \<Rightarrow> [20]),
      trace = []\<rparr>"

definition opened_memory :: "nat memory" where
  "opened_memory = snd (snd (gcry_mac_open sample_list fresh_memory 101 0 None))"

definition opened_secure_memory :: "nat memory" where
  "opened_secure_memory = snd (snd (gcry_mac_open sample_list fresh_memory 107 1 (Some 5)))"

text \<open>
  A registry of one descriptor whose \<open>setkey\<close> refuses an empty key: on length 0
  it returns \<open>GPG_ERR_INV_ARG\<close> and sets the counter to 99.
\<close>

definition strict_ops :: "nat gcry_mac_spec_ops" where
  "strict_ops =
     counter_ops\<lparr>ops_setkey :=
       Some (\<lambda>h key keylen.
               if keylen = 0 then (GPG_ERR_INV_ARG, h\<lparr>hd_u := 99\<rparr>)
               else (0, h\<lparr>hd_u := hd_u h + keylen\<rparr>))\<rparr>"

definition strict_list :: "nat gcry_mac_spec list" where
  "strict_list =
     [\<lparr>algo = 110, flags_disabled = False, name = ''HMAC_WHIRLPOOL'', ops = Some strict_ops\<rparr>]"

definition strict_memory :: "nat memory" where
  "strict_memory = snd (snd (gcry_mac_open strict_list fresh_memory 110 0 None))"


section \<open>Notions used in the statements\<close>

text \<open>The six operations \<open>mac_open\<close> insists on.\<close>

definition complete_ops :: "'c gcry_mac_spec_ops \<Rightarrow> bool" where
  "complete_ops t \<longleftrightarrow>
     ops_open t \<noteq> None \<and> ops_write t \<noteq> None \<and> ops_setkey t \<noteq> None \<and>
     ops_read t \<noteq> None \<and> ops_verify t \<noteq> None \<and> ops_reset t \<noteq> None"

text \<open>\<open>resolves ml a i\<close>: the scan for id \<open>a\<close> stops at position \<open>i\<close>.\<close>

definition resolves :: "'c gcry_mac_spec list \<Rightarrow> int \<Rightarrow> nat \<Rightarrow> bool" where
  "resolves ml a i \<longleftrightarrow> i < length ml \<and> algo (ml ! i) = a \<and> (\<forall>j < i. algo (ml ! j) \<noteq> a)"

definition pool_of :: "bool \<Rightarrow> pool" where
  "pool_of secure = (if secure then Secure else Normal)"

definition magic_of :: "pool \<Rightarrow> 32 word" where
  "magic_of p = (case p of Secure \<Rightarrow> CTX_MAGIC_SECURE | Normal \<Rightarrow> CTX_MAGIC_NORMAL)"

text \<open>
  The algorithm implementations are not part of the dispatcher.  What the
  lifetime properties need from them is that a callback leaves the two fields
  \<open>magic\<close> and \<open>spec\<close> of the handle it is given as they are; \<open>mac_open\<close> is the
  only place of the dispatcher that assigns them.
\<close>

definition keeps_binding :: "'c gcry_mac_handle \<Rightarrow> 'c gcry_mac_handle \<Rightarrow> bool" where
  "keeps_binding h h' \<longleftrightarrow> hd_magic h' = hd_magic h \<and> hd_spec h' = hd_spec h"

definition callbacks_keep_binding :: "'c gcry_mac_spec_ops \<Rightarrow> bool" where
  "callbacks_keep_binding t \<longleftrightarrow>
     (\<forall>f h. ops_open t = Some f \<longrightarrow> keeps_binding h (snd (f h))) \<and>
     (\<forall>f h k n. ops_setkey t = Some f \<longrightarrow> keeps_binding h (snd (f h k n))) \<and>
     (\<forall>f h k n. ops_setiv t = Some f \<longrightarrow> keeps_binding h (snd (f h k n))) \<and>
     (\<forall>f h. ops_reset t = Some f \<longrightarrow> keeps_binding h (snd (f h))) \<and>
     (\<forall>f h k n. ops_write t = Some f \<longrightarrow> keeps_binding h (snd (f h k n))) \<and>
     (\<forall>f h b n. ops_read t = Some f \<longrightarrow> keeps_binding h (fst (snd (f h b n)))) \<and>
     (\<forall>f h b n. ops_verify t = Some f \<longrightarrow> keeps_binding h (snd (f h b n)))"

definition registry_keeps_binding :: "'c gcry_mac_spec list \<Rightarrow> bool" where
  "registry_keeps_binding ml \<longleftrightarrow>
     (\<forall>s \<in> set ml. \<forall>t. ops s = Some t \<longrightarrow> callbacks_keep_binding t)"

text \<open>
  A starting memory: no block is live and the two pools offer distinct blocks.
\<close>

definition pristine :: "'c memory \<Rightarrow> bool" where
  "pristine m \<longleftrightarrow>
     (\<forall>a. owner m a = None) \<and> distinct (room m Normal @ room m Secure)"

text \<open>
  The invariant of live blocks: a live block carries the tag of its pool and
  points to a descriptor of the registry whose capability table is complete.
  \<open>sane\<close> is the allocator's side of it: the blocks a pool still offers are
  pairwise distinct and not live.
\<close>

definition bound_handle :: "'c gcry_mac_spec list \<Rightarrow> 'c memory \<Rightarrow> nat \<Rightarrow> bool" where
  "bound_handle ml m h \<longleftrightarrow>
     (\<exists>p i t. owner m h = Some p \<and> hd_magic (cells m h) = magic_of p \<and>
        hd_spec (cells m h) = Some i \<and> i < length ml \<and> ops (ml ! i) = Some t \<and>
        complete_ops t)"

definition all_bound :: "'c gcry_mac_spec list \<Rightarrow> 'c memory \<Rightarrow> bool" where
  "all_bound ml m \<longleftrightarrow> (\<forall>h. owner m h \<noteq> None \<longrightarrow> bound_handle ml m h)"

definition sane :: "'c memory \<Rightarrow> bool" where
  "sane m \<longleftrightarrow>
     distinct (room m Normal @ room m Secure) \<and>
     (\<forall>x \<in> set (room m Normal @ room m Secure). owner m x = None)"

definition same_binding :: "'c memory \<Rightarrow> 'c memory \<Rightarrow> bool" where
  "same_binding m m' \<longleftrightarrow>
     owner m' = owner m \<and> room m' = room m \<and>
     (\<forall>x. hd_spec (cells m' x) = hd_spec (cells m x) \<and>
          hd_magic (cells m' x) = hd_magic (cells m x))"

text \<open>
  Calls of the public interface, and running a sequence of them.  A call on an
  invalid handle has no defined outcome and ends the run with \<open>None\<close>.
\<close>

datatype request =
    Req_open int "32 word" "nat option"
  | Req_close nat
  | Req_setkey nat "buffer option" nat
  | Req_setiv nat "buffer option" nat
  | Req_write nat "buffer option" nat
  | Req_read nat "buffer option" "nat option"
  | Req_verify nat "buffer option" nat
  | Req_ctl nat int "buffer option" nat

fun perform ::
  "'c::zero gcry_mac_spec list \<Rightarrow> 'c memory \<Rightarrow> request \<Rightarrow> 'c memory option" where
  "perform ml m (Req_open a flags ctx) = Some (snd (snd (gcry_mac_open ml m a flags ctx)))"
| "perform ml m (Req_close h) = gcry_mac_close ml m h"
| "perform ml m (Req_setkey h key keylen) = map_option snd (gcry_mac_setkey ml m h key keylen)"
| "perform ml m (Req_setiv h iv ivlen) = map_option snd (gcry_mac_setiv ml m h iv ivlen)"
| "perform ml m (Req_write h inbuf inlen) = map_option snd (gcry_mac_write ml m h inbuf inlen)"
| "perform ml m (Req_read h outbuf outlen) =
     map_option (\<lambda>r. fst (snd r)) (gcry_mac_read ml m h outbuf outlen)"
| "perform ml m (Req_verify h buf buflen) = map_option snd (gcry_mac_verify ml m h buf buflen)"
| "perform ml m (Req_ctl h cmd buffer buflen) =
     map_option snd (gcry_mac_ctl ml m h cmd buffer buflen)"

fun run ::
  "'c::zero gcry_mac_spec list \<Rightarrow> 'c memory \<Rightarrow> request list \<Rightarrow> 'c memory option" where
  "run ml m [] = Some m"
| "run ml m (r # rs) =
     (case perform ml m r of
        None \<Rightarrow> None
      | Some m' \<Rightarrow> run ml m' rs)"


section \<open>Facts about the registry lookups\<close>

lemma spec_from_algo_at_None:
  "spec_from_algo_at k ml a = None \<longleftrightarrow> a \<notin> algo ` set ml"
  by (induction ml arbitrary: k) auto

lemma spec_from_algo_at_Some:
  "spec_from_algo_at k ml a = Some i \<Longrightarrow>
     k \<le> i \<and> i - k < length ml \<and> algo (ml ! (i - k)) = a \<and> (\<forall>j < i - k. algo (ml ! j) \<noteq> a)"
proof (induction ml arbitrary: k)
  case Nil
  then show ?case by simp
next
  case (Cons s rest)
  show ?case
  proof (cases "a = algo s")
    case True
    with Cons.prems show ?thesis by simp
  next
    case False
    with Cons.prems have "spec_from_algo_at (Suc k) rest a = Some i" by simp
    from Cons.IH [OF this]
    have *: "Suc k \<le> i" "i - Suc k < length rest" "algo (rest ! (i - Suc k)) = a"
      "\<forall>j < i - Suc k. algo (rest ! j) \<noteq> a" by auto
    have "i - k = Suc (i - Suc k)" using * by simp
    then show ?thesis using * False by (auto simp: nth_Cons less_Suc_eq_0_disj)
  qed
qed

lemma spec_from_algo_None: "spec_from_algo ml a = None \<longleftrightarrow> a \<notin> algo ` set ml"
  by (simp add: spec_from_algo_def spec_from_algo_at_None)

lemma spec_from_algo_Some:
  "spec_from_algo ml a = Some i \<Longrightarrow>
     i < length ml \<and> algo (ml ! i) = a \<and> (\<forall>j < i. algo (ml ! j) \<noteq> a)"
  using spec_from_algo_at_Some [of 0 ml a i] by (simp add: spec_from_algo_def)

lemma stricmp_zero: "stricmp x y = 0 \<longleftrightarrow> map tolower x = map tolower y"
  by (induction x y rule: stricmp.induct) auto

lemma spec_from_name_at_None:
  "spec_from_name_at k ml n = None \<longleftrightarrow> (\<forall>s \<in> set ml. map tolower (name s) \<noteq> map tolower n)"
  by (induction ml arbitrary: k) (auto simp: stricmp_zero)

lemma spec_from_name_at_Some:
  "spec_from_name_at k ml n = Some i \<Longrightarrow>
     k \<le> i \<and> i - k < length ml \<and> map tolower (name (ml ! (i - k))) = map tolower n \<and>
     (\<forall>j < i - k. map tolower (name (ml ! j)) \<noteq> map tolower n)"
proof (induction ml arbitrary: k)
  case Nil
  then show ?case by simp
next
  case (Cons s rest)
  show ?case
  proof (cases "stricmp n (name s) = 0")
    case True
    with Cons.prems show ?thesis by (simp add: stricmp_zero)
  next
    case False
    with Cons.prems have "spec_from_name_at (Suc k) rest n = Some i" by simp
    from Cons.IH [OF this]
    have *: "Suc k \<le> i" "i - Suc k < length rest"
      "map tolower (name (rest ! (i - Suc k))) = map tolower n"
      "\<forall>j < i - Suc k. map tolower (name (rest ! j)) \<noteq> map tolower n" by auto
    have "i - k = Suc (i - Suc k)" using * by simp
    then show ?thesis using * False
      by (auto simp: nth_Cons less_Suc_eq_0_disj stricmp_zero)
  qed
qed

lemma spec_from_name_None:
  "spec_from_name ml n = None \<longleftrightarrow> (\<forall>s \<in> set ml. map tolower (name s) \<noteq> map tolower n)"
  by (simp add: spec_from_name_def spec_from_name_at_None)

lemma spec_from_name_Some:
  "spec_from_name ml n = Some i \<Longrightarrow>
     i < length ml \<and> map tolower (name (ml ! i)) = map tolower n \<and>
     (\<forall>j < i. map tolower (name (ml ! j)) \<noteq> map tolower n)"
  using spec_from_name_at_Some [of 0 ml n i] by (simp add: spec_from_name_def)



lemma spec_from_algo_first:
  assumes "i < length ml" and "algo (ml ! i) = a" and "\<forall>j < i. algo (ml ! j) \<noteq> a"
  shows "spec_from_algo ml a = Some i"
proof -
  from assms(1,2) have "a \<in> algo ` set ml"
    by (metis imageI nth_mem)
  then obtain k where k: "spec_from_algo ml a = Some k"
    using spec_from_algo_None [of ml a] by (cases "spec_from_algo ml a") auto
  from spec_from_algo_Some [OF k]
  have "k < length ml" "algo (ml ! k) = a" "\<forall>j < k. algo (ml ! j) \<noteq> a" by auto
  with assms have "\<not> k < i" and "\<not> i < k"
    by auto
  then have "k = i" by simp
  with k show ?thesis by simp
qed

lemma resolves_iff: "resolves ml a i \<longleftrightarrow> spec_from_algo ml a = Some i"
  unfolding resolves_def
  using spec_from_algo_first [of i ml a] spec_from_algo_Some [of ml a i] by blast

lemma spec_from_name_first:
  assumes "i < length ml" and "map tolower (name (ml ! i)) = map tolower n"
    and "\<forall>j < i. map tolower (name (ml ! j)) \<noteq> map tolower n"
  shows "spec_from_name ml n = Some i"
proof -
  from assms(1,2) have "\<not> (\<forall>s \<in> set ml. map tolower (name s) \<noteq> map tolower n)"
    by (metis nth_mem)
  then obtain k where k: "spec_from_name ml n = Some k"
    using spec_from_name_None [of ml n] by (cases "spec_from_name ml n") auto
  from spec_from_name_Some [OF k]
  have "k < length ml" "map tolower (name (ml ! k)) = map tolower n"
    "\<forall>j < k. map tolower (name (ml ! j)) \<noteq> map tolower n" by auto
  with assms have "\<not> k < i" and "\<not> i < k"
    by auto
  then have "k = i" by simp
  with k show ?thesis by simp
qed

lemma name_round_trip_aux:
  assumes uniq: "distinct (map (map tolower \<circ> name) ml)"
    and i: "spec_from_algo ml a = Some i"
  shows "spec_from_name ml (name (ml ! i)) = Some i"
proof -
  from spec_from_algo_Some [OF i] have len: "i < length ml" by simp
  have "\<forall>j < i. map tolower (name (ml ! j)) \<noteq> map tolower (name (ml ! i))"
  proof (intro allI impI)
    fix j assume j: "j < i"
    with len have "j < length ml" by simp
    with uniq len j show "map tolower (name (ml ! j)) \<noteq> map tolower (name (ml ! i))"
      using nth_eq_iff_index_eq [of "map (map tolower \<circ> name) ml" j i] by simp
  qed
  with len show ?thesis by (intro spec_from_name_first) auto
qed

text \<open>
  Claim C4.  Where no two descriptors of the registry have names that are equal up
  to case, every registered id survives the round trip: the name of the id that
  \<open>gcry_mac_map_name\<close> finds for \<open>gcry_mac_algo_name a\<close> is \<open>gcry_mac_algo_name a\<close>
  again.
\<close>

theorem name_round_trip:
  assumes "distinct (map (map tolower \<circ> name) ml)" and "a \<in> algo ` set ml"
  shows "gcry_mac_algo_name ml (gcry_mac_map_name ml (Some (gcry_mac_algo_name ml a)))
           = gcry_mac_algo_name ml a"
proof -
  from assms(2) obtain i where i: "spec_from_algo ml a = Some i"
    using spec_from_algo_None [of ml a] by (cases "spec_from_algo ml a") auto
  have n: "gcry_mac_algo_name ml a = name (ml ! i)"
    by (simp add: gcry_mac_algo_name_def i)
  have "gcry_mac_map_name ml (Some (name (ml ! i))) = algo (ml ! i)"
    by (simp add: gcry_mac_map_name_def name_round_trip_aux [OF assms(1) i])
  also have "\<dots> = a" using spec_from_algo_Some [OF i] by simp
  finally show ?thesis by (simp add: n)
qed

theorem name_round_trip_witness:
  "distinct (map (map tolower \<circ> name) sample_list) \<and> (107::int) \<in> algo ` set sample_list \<and>
   gcry_mac_algo_name sample_list 107 = ''HMAC_MD4'' \<and>
   gcry_mac_map_name sample_list (Some ''HMAC_MD4'') = 107 \<and>
   gcry_mac_algo_name sample_list
     (gcry_mac_map_name sample_list (Some (gcry_mac_algo_name sample_list 107)))
     = gcry_mac_algo_name sample_list 107"
proof -
  have d: "distinct (map (map tolower \<circ> name) sample_list)" by code_simp
  have r: "(107::int) \<in> algo ` set sample_list" by (simp add: sample_list_def)
  have n: "gcry_mac_algo_name sample_list 107 = ''HMAC_MD4''" by code_simp
  have m: "gcry_mac_map_name sample_list (Some ''HMAC_MD4'') = 107" by code_simp
  show ?thesis using d r n m name_round_trip [OF d r] by simp
qed


section \<open>Error codes and the availability test\<close>

lemma gpg_err_make_nonzero:
  "code \<noteq> 0 \<Longrightarrow> gpg_err_make GPG_ERR_SOURCE_DEFAULT code \<noteq> 0"
proof -
  assume "code \<noteq> 0"
  have "bit (push_bit 24 ((1::32 word) AND 127) OR (code AND 65535)) 24"
    by (simp add: bit_or_iff bit_push_bit_iff)
  then have "push_bit 24 ((1::32 word) AND 127) OR (code AND 65535) \<noteq> 0"
    by (metis bit_0_eq bot_apply bot_bool_def)
  with \<open>code \<noteq> 0\<close> show ?thesis
    by (simp add: gpg_err_make_def GPG_ERR_SOURCE_DEFAULT_def GPG_ERR_NO_ERROR_def)
qed

lemma gpg_error_zero_iff: "gpg_error code = 0 \<longleftrightarrow> code = 0"
  using gpg_err_make_nonzero [of code]
  by (auto simp: gpg_error_def gpg_err_make_def GPG_ERR_NO_ERROR_def)

lemma gcry_error_zero_iff: "gcry_error code = 0 \<longleftrightarrow> code = 0"
  using gpg_err_make_nonzero [of code]
  by (auto simp: gcry_error_def gpg_err_make_def GPG_ERR_NO_ERROR_def)

lemma err_codes_distinct:
  "GPG_ERR_INV_ARG \<noteq> GPG_ERR_INV_OP" "GPG_ERR_INV_ARG \<noteq> GPG_ERR_MAC_ALGO"
  "GPG_ERR_INV_OP \<noteq> GPG_ERR_MAC_ALGO" "GPG_ERR_INV_ARG \<noteq> 0" "GPG_ERR_INV_OP \<noteq> 0"
  "GPG_ERR_MAC_ALGO \<noteq> 0" "GPG_ERR_ENOMEM \<noteq> 0"
  by (simp_all add: GPG_ERR_INV_ARG_def GPG_ERR_INV_OP_def GPG_ERR_MAC_ALGO_def
      GPG_ERR_ENOMEM_def)

lemma gpg_err_code_known:
  "gpg_err_code (gpg_error GPG_ERR_INV_ARG) = GPG_ERR_INV_ARG"
  "gpg_err_code (gpg_error GPG_ERR_INV_OP) = GPG_ERR_INV_OP"
  "gpg_err_code (gpg_error GPG_ERR_MAC_ALGO) = GPG_ERR_MAC_ALGO"
  "gpg_err_code (gcry_error GPG_ERR_INV_ARG) = GPG_ERR_INV_ARG"
  "gpg_err_code (gcry_error GPG_ERR_INV_OP) = GPG_ERR_INV_OP"
  "gpg_err_code (gcry_error GPG_ERR_MAC_ALGO) = GPG_ERR_MAC_ALGO"
  by (simp_all add: gpg_err_code_def gpg_error_def gcry_error_def gpg_err_make_def
      GPG_ERR_INV_ARG_def GPG_ERR_INV_OP_def GPG_ERR_MAC_ALGO_def GPG_ERR_NO_ERROR_def
      GPG_ERR_SOURCE_DEFAULT_def)

lemma check_mac_algo_eq:
  "check_mac_algo ml a =
     (if \<exists>i. resolves ml a i \<and> \<not> flags_disabled (ml ! i) then 0 else GPG_ERR_MAC_ALGO)"
  by (simp add: check_mac_algo_def resolves_iff split: option.splits)

text \<open>
  Claim C2, as the code has it.  \<open>check_mac_algo\<close> returns 0 exactly when the id
  resolves to a descriptor (the first one of the registry carrying the id) that is
  not disabled, whatever its capability table is; every other id gets
  \<open>GPG_ERR_MAC_ALGO\<close>.  \<open>gcry_mac_algo_info\<close> with \<open>GCRYCTL_TEST_ALGO\<close> and no
  extra argument returns that verdict.
\<close>

theorem check_mac_algo_available:
  "(check_mac_algo ml a = 0 \<longleftrightarrow> (\<exists>i. resolves ml a i \<and> \<not> flags_disabled (ml ! i))) \<and>
   (check_mac_algo ml a \<noteq> 0 \<longrightarrow> check_mac_algo ml a = GPG_ERR_MAC_ALGO) \<and>
   gcry_mac_algo_info ml a GCRYCTL_TEST_ALGO None None
     = (gcry_error (check_mac_algo ml a), None)"
proof -
  have info: "gcry_mac_algo_info ml a GCRYCTL_TEST_ALGO None None
     = (gcry_error (check_mac_algo ml a), None)"
    by (simp add: gcry_mac_algo_info_def GCRYCTL_TEST_ALGO_def GCRYCTL_GET_KEYLEN_def)
  show ?thesis
    unfolding info using err_codes_distinct(6) by (simp add: check_mac_algo_eq [of ml a])
qed

theorem check_mac_algo_available_witness:
  "resolves sample_list 101 0 \<and> \<not> flags_disabled (sample_list ! 0) \<and>
   check_mac_algo sample_list 101 = 0 \<and>
   check_mac_algo sample_list 105 \<noteq> 0 \<and>
   check_mac_algo sample_list 105 = GPG_ERR_MAC_ALGO"
proof -
  have r: "resolves sample_list 101 0"
    by (simp add: resolves_iff spec_from_algo_def sample_list_def)
  have e: "\<not> flags_disabled (sample_list ! 0)" by (simp add: sample_list_def)
  have b: "check_mac_algo sample_list 105 \<noteq> 0" by code_simp
  from check_mac_algo_available [of sample_list 101] r e
  have a: "check_mac_algo sample_list 101 = 0" by blast
  from check_mac_algo_available [of sample_list 105] b
  have c: "check_mac_algo sample_list 105 = GPG_ERR_MAC_ALGO" by blast
  from r e a b c show ?thesis by (intro conjI)
qed

text \<open>
  Claim C2 as stated fails: id 106 of the sample registry resolves to an enabled
  descriptor whose capability table is null, and the availability test succeeds.
\<close>

theorem check_mac_algo_null_ops_counterexample:
  "spec_from_algo sample_list 106 = Some 2 \<and>
   \<not> flags_disabled (sample_list ! 2) \<and>
   ops (sample_list ! 2) = None \<and>
   check_mac_algo sample_list 106 = 0 \<and>
   gcry_mac_algo_info sample_list 106 GCRYCTL_TEST_ALGO None None = (0, None)"
  by code_simp



section \<open>Names and ids\<close>

lemma algo_name_unregistered:
  "a \<notin> algo ` set ml \<Longrightarrow> gcry_mac_algo_name ml a = ''?''"
  using spec_from_algo_None [of ml a] by (simp add: gcry_mac_algo_name_def)

lemma algo_name_registered:
  assumes "a \<in> algo ` set ml"
  shows "\<exists>i. resolves ml a i \<and> gcry_mac_algo_name ml a = name (ml ! i)"
proof -
  from assms obtain i where i: "spec_from_algo ml a = Some i"
    using spec_from_algo_None [of ml a] by (cases "spec_from_algo ml a") auto
  have "gcry_mac_algo_name ml a = name (ml ! i)"
    by (simp add: gcry_mac_algo_name_def i)
  with i show ?thesis by (auto simp: resolves_iff)
qed

lemma algo_name_nonempty:
  assumes "[] \<notin> name ` set ml"
  shows "gcry_mac_algo_name ml a \<noteq> []"
proof (cases "a \<in> algo ` set ml")
  case True
  from algo_name_registered [OF True] obtain i where
    "i < length ml" "gcry_mac_algo_name ml a = name (ml ! i)"
    by (auto simp: resolves_def)
  with assms show ?thesis by (metis imageI nth_mem)
next
  case False
  then show ?thesis by (simp add: algo_name_unregistered)
qed

lemma map_name_unknown:
  "map tolower n \<notin> (\<lambda>s. map tolower (name s)) ` set ml \<Longrightarrow>
     gcry_mac_map_name ml (Some n) = 0"
proof -
  assume "map tolower n \<notin> (\<lambda>s. map tolower (name s)) ` set ml"
  then have "\<forall>s \<in> set ml. map tolower (name s) \<noteq> map tolower n" by force
  then show ?thesis
    using spec_from_name_None [of ml n] by (simp add: gcry_mac_map_name_def)
qed

lemma map_name_known:
  assumes "map tolower n \<in> (\<lambda>s. map tolower (name s)) ` set ml"
  shows "\<exists>i < length ml. map tolower (name (ml ! i)) = map tolower n \<and>
           (\<forall>j < i. map tolower (name (ml ! j)) \<noteq> map tolower n) \<and>
           gcry_mac_map_name ml (Some n) = algo (ml ! i)"
proof -
  from assms have "\<not> (\<forall>s \<in> set ml. map tolower (name s) \<noteq> map tolower n)" by force
  then obtain i where i: "spec_from_name ml n = Some i"
    using spec_from_name_None [of ml n] by (cases "spec_from_name ml n") auto
  have "gcry_mac_map_name ml (Some n) = algo (ml ! i)"
    by (simp add: gcry_mac_map_name_def i)
  with spec_from_name_Some [OF i] show ?thesis by blast
qed

lemma map_name_empty:
  assumes "[] \<notin> name ` set ml"
  shows "gcry_mac_map_name ml (Some []) = 0"
proof -
  from assms have "map tolower [] \<notin> (\<lambda>s. map tolower (name s)) ` set ml" by force
  then show ?thesis by (rule map_name_unknown)
qed

lemma map_name_known_nonzero:
  assumes "0 \<notin> algo ` set ml"
    and "map tolower n \<in> (\<lambda>s. map tolower (name s)) ` set ml"
  shows "gcry_mac_map_name ml (Some n) \<noteq> 0"
proof -
  from map_name_known [OF assms(2)] obtain i where
    "i < length ml" "gcry_mac_map_name ml (Some n) = algo (ml ! i)" by blast
  with assms(1) show ?thesis by (metis imageI nth_mem)
qed

text \<open>
  Claim C6.  In a registry whose descriptors have non-empty names and nonzero
  ids, \<open>gcry_mac_algo_name\<close> returns the name of the descriptor a registered id
  resolves to, the placeholder \<open>?\<close> for id 0 and for every unregistered id, and
  never the empty string; \<open>gcry_mac_map_name\<close> returns 0 for a null pointer, for
  the empty string and for a name no descriptor carries (up to case), and the
  nonzero id of the first descriptor carrying the name otherwise.
\<close>

theorem algo_name_and_map_name:
  assumes names: "[] \<notin> name ` set ml" and ids: "0 \<notin> algo ` set ml"
  shows "(a \<in> algo ` set ml \<longrightarrow>
            (\<exists>i. resolves ml a i \<and> gcry_mac_algo_name ml a = name (ml ! i))) \<and>
         (a \<notin> algo ` set ml \<longrightarrow> gcry_mac_algo_name ml a = ''?'') \<and>
         gcry_mac_algo_name ml 0 = ''?'' \<and>
         gcry_mac_algo_name ml a \<noteq> [] \<and>
         gcry_mac_map_name ml None = 0 \<and>
         gcry_mac_map_name ml (Some []) = 0 \<and>
         (map tolower n \<notin> (\<lambda>s. map tolower (name s)) ` set ml \<longrightarrow>
            gcry_mac_map_name ml (Some n) = 0) \<and>
         (map tolower n \<in> (\<lambda>s. map tolower (name s)) ` set ml \<longrightarrow>
            gcry_mac_map_name ml (Some n) \<noteq> 0 \<and>
            (\<exists>i < length ml. map tolower (name (ml ! i)) = map tolower n \<and>
               (\<forall>j < i. map tolower (name (ml ! j)) \<noteq> map tolower n) \<and>
               gcry_mac_map_name ml (Some n) = algo (ml ! i)))"
proof -
  have 1: "a \<in> algo ` set ml \<longrightarrow>
            (\<exists>i. resolves ml a i \<and> gcry_mac_algo_name ml a = name (ml ! i))"
    using algo_name_registered by blast
  have 2: "a \<notin> algo ` set ml \<longrightarrow> gcry_mac_algo_name ml a = ''?''"
    using algo_name_unregistered by blast
  have 3: "gcry_mac_algo_name ml 0 = ''?''"
    using ids by (rule algo_name_unregistered)
  have 4: "gcry_mac_algo_name ml a \<noteq> []"
    using names by (rule algo_name_nonempty)
  have 5: "gcry_mac_map_name ml None = 0"
    by (simp add: gcry_mac_map_name_def)
  have 6: "gcry_mac_map_name ml (Some []) = 0"
    using names by (rule map_name_empty)
  have 7: "map tolower n \<notin> (\<lambda>s. map tolower (name s)) ` set ml \<longrightarrow>
            gcry_mac_map_name ml (Some n) = 0"
    using map_name_unknown by blast
  have 8: "map tolower n \<in> (\<lambda>s. map tolower (name s)) ` set ml \<longrightarrow>
            gcry_mac_map_name ml (Some n) \<noteq> 0 \<and>
            (\<exists>i < length ml. map tolower (name (ml ! i)) = map tolower n \<and>
               (\<forall>j < i. map tolower (name (ml ! j)) \<noteq> map tolower n) \<and>
               gcry_mac_map_name ml (Some n) = algo (ml ! i))"
    using map_name_known [of n ml] map_name_known_nonzero [OF ids, of n] by blast
  from 1 2 3 4 5 6 7 8 show ?thesis by (intro conjI)
qed

theorem algo_name_and_map_name_witness:
  "[] \<notin> name ` set sample_list \<and> 0 \<notin> algo ` set sample_list \<and>
   999 \<notin> algo ` set sample_list \<and>
   gcry_mac_algo_name sample_list 999 = ''?'' \<and>
   gcry_mac_algo_name sample_list 0 = ''?'' \<and>
   gcry_mac_algo_name sample_list 101 \<noteq> [] \<and>
   map tolower ''hmac_sha256'' \<in> (\<lambda>s. map tolower (name s)) ` set sample_list \<and>
   gcry_mac_map_name sample_list (Some ''hmac_sha256'') \<noteq> 0 \<and>
   map tolower ''crc32'' \<notin> (\<lambda>s. map tolower (name s)) ` set sample_list \<and>
   gcry_mac_map_name sample_list (Some ''crc32'') = 0 \<and>
   gcry_mac_map_name sample_list (Some []) = 0"
proof -
  have names: "[] \<notin> name ` set sample_list" by (simp add: sample_list_def)
  have ids: "0 \<notin> algo ` set sample_list" by (simp add: sample_list_def)
  have unreg: "999 \<notin> algo ` set sample_list" by (simp add: sample_list_def)
  have low: "map tolower (name (sample_list ! 0)) = map tolower ''hmac_sha256''" by code_simp
  have "sample_list ! 0 \<in> set sample_list" by (simp add: sample_list_def)
  then have "map tolower (name (sample_list ! 0))
               \<in> (\<lambda>s. map tolower (name s)) ` set sample_list"
    by (rule imageI)
  with low have known:
    "map tolower ''hmac_sha256'' \<in> (\<lambda>s. map tolower (name s)) ` set sample_list"
    by simp
  have unknown: "map tolower ''crc32'' \<notin> (\<lambda>s. map tolower (name s)) ` set sample_list"
    by code_simp
  note t1 = algo_name_and_map_name [OF names ids, of 999 "''crc32''"]
  note t2 = algo_name_and_map_name [OF names ids, of 101 "''hmac_sha256''"]
  from t1 unreg have a: "gcry_mac_algo_name sample_list 999 = ''?''" by blast
  from t1 have b: "gcry_mac_algo_name sample_list 0 = ''?''" by blast
  from t2 have c: "gcry_mac_algo_name sample_list 101 \<noteq> []" by blast
  from t2 known have d: "gcry_mac_map_name sample_list (Some ''hmac_sha256'') \<noteq> 0" by blast
  from t1 unknown have e: "gcry_mac_map_name sample_list (Some ''crc32'') = 0" by blast
  from t1 have f: "gcry_mac_map_name sample_list (Some []) = 0" by blast
  from names ids unreg a b c known d unknown e f show ?thesis by (intro conjI)
qed


section \<open>Length queries\<close>

lemma get_algo_keylen_unknown:
  "a \<notin> algo ` set ml \<Longrightarrow> gcry_mac_get_algo_keylen ml a = 0"
  using spec_from_algo_None [of ml a] by (simp add: gcry_mac_get_algo_keylen_def)

lemma get_algo_maclen_unknown:
  "a \<notin> algo ` set ml \<Longrightarrow> gcry_mac_get_algo_maclen ml a = 0"
  using spec_from_algo_None [of ml a] by (simp add: gcry_mac_get_algo_maclen_def)

lemma get_algo_keylen_known:
  assumes "resolves ml a i"
  shows "gcry_mac_get_algo_keylen ml a =
           (case ops (ml ! i) of
              None \<Rightarrow> 0
            | Some t \<Rightarrow> (case ops_get_keylen t of None \<Rightarrow> 0 | Some f \<Rightarrow> f a))"
  using assms by (simp add: gcry_mac_get_algo_keylen_def resolves_iff)

lemma get_algo_maclen_known:
  assumes "resolves ml a i"
  shows "gcry_mac_get_algo_maclen ml a =
           (case ops (ml ! i) of
              None \<Rightarrow> 0
            | Some t \<Rightarrow> (case ops_get_maclen t of None \<Rightarrow> 0 | Some f \<Rightarrow> f a))"
  using assms by (simp add: gcry_mac_get_algo_maclen_def resolves_iff)

lemma algo_info_get_keylen:
  "gcry_mac_algo_info ml a GCRYCTL_GET_KEYLEN None (Some n) =
     (if 0 < gcry_mac_get_algo_keylen ml a
      then (0, Some (gcry_mac_get_algo_keylen ml a))
      else (gcry_error GPG_ERR_MAC_ALGO, Some n))"
  by (simp add: gcry_mac_algo_info_def Let_def gcry_error_zero_iff GPG_ERR_NO_ERROR_def)

lemma algo_info_other:
  "what \<noteq> GCRYCTL_GET_KEYLEN \<Longrightarrow> what \<noteq> GCRYCTL_TEST_ALGO \<Longrightarrow>
     gcry_mac_algo_info ml a what buffer nbytes = (gcry_error GPG_ERR_INV_OP, nbytes)"
  by (simp add: gcry_mac_algo_info_def)

text \<open>
  Claim C8.  \<open>gcry_mac_get_algo_keylen\<close> and \<open>gcry_mac_get_algo_maclen\<close> return 0
  for an unregistered id, and for a registered one the accessor's value, or 0
  where the capability table or the accessor is null.  \<open>gcry_mac_algo_info\<close> with
  \<open>GCRYCTL_GET_KEYLEN\<close> stores a nonzero key length in \<open>*nbytes\<close> and succeeds,
  and fails with \<open>GPG_ERR_MAC_ALGO\<close>, leaving \<open>*nbytes\<close> alone, when the key length
  is 0.  Every query other than \<open>GCRYCTL_GET_KEYLEN\<close> and \<open>GCRYCTL_TEST_ALGO\<close>
  fails with \<open>GPG_ERR_INV_OP\<close>.
\<close>

theorem key_length_queries:
  "(a \<notin> algo ` set ml \<longrightarrow>
      gcry_mac_get_algo_keylen ml a = 0 \<and> gcry_mac_get_algo_maclen ml a = 0) \<and>
   (resolves ml a i \<longrightarrow>
      gcry_mac_get_algo_keylen ml a =
        (case ops (ml ! i) of
           None \<Rightarrow> 0
         | Some t \<Rightarrow> (case ops_get_keylen t of None \<Rightarrow> 0 | Some f \<Rightarrow> f a)) \<and>
      gcry_mac_get_algo_maclen ml a =
        (case ops (ml ! i) of
           None \<Rightarrow> 0
         | Some t \<Rightarrow> (case ops_get_maclen t of None \<Rightarrow> 0 | Some f \<Rightarrow> f a))) \<and>
   gcry_mac_algo_info ml a GCRYCTL_GET_KEYLEN None (Some n) =
     (if 0 < gcry_mac_get_algo_keylen ml a
      then (0, Some (gcry_mac_get_algo_keylen ml a))
      else (gcry_error GPG_ERR_MAC_ALGO, Some n)) \<and>
   gpg_err_code (gcry_error GPG_ERR_MAC_ALGO) = GPG_ERR_MAC_ALGO \<and>
   (what \<noteq> GCRYCTL_GET_KEYLEN \<and> what \<noteq> GCRYCTL_TEST_ALGO \<longrightarrow>
      gcry_mac_algo_info ml a what buffer nbytes = (gcry_error GPG_ERR_INV_OP, nbytes)) \<and>
   gpg_err_code (gcry_error GPG_ERR_INV_OP) = GPG_ERR_INV_OP \<and>
   GPG_ERR_INV_OP \<noteq> GPG_ERR_MAC_ALGO \<and> GPG_ERR_INV_OP \<noteq> GPG_ERR_INV_ARG"
proof -
  have 1: "a \<notin> algo ` set ml \<longrightarrow>
      gcry_mac_get_algo_keylen ml a = 0 \<and> gcry_mac_get_algo_maclen ml a = 0"
    using get_algo_keylen_unknown get_algo_maclen_unknown by blast
  have 2: "resolves ml a i \<longrightarrow>
      gcry_mac_get_algo_keylen ml a =
        (case ops (ml ! i) of
           None \<Rightarrow> 0
         | Some t \<Rightarrow> (case ops_get_keylen t of None \<Rightarrow> 0 | Some f \<Rightarrow> f a)) \<and>
      gcry_mac_get_algo_maclen ml a =
        (case ops (ml ! i) of
           None \<Rightarrow> 0
         | Some t \<Rightarrow> (case ops_get_maclen t of None \<Rightarrow> 0 | Some f \<Rightarrow> f a))"
    using get_algo_keylen_known [of ml a i] get_algo_maclen_known [of ml a i] by blast
  have 3: "what \<noteq> GCRYCTL_GET_KEYLEN \<and> what \<noteq> GCRYCTL_TEST_ALGO \<longrightarrow>
      gcry_mac_algo_info ml a what buffer nbytes = (gcry_error GPG_ERR_INV_OP, nbytes)"
    using algo_info_other by blast
  have 4: "gcry_mac_algo_info ml a GCRYCTL_GET_KEYLEN None (Some n) =
     (if 0 < gcry_mac_get_algo_keylen ml a
      then (0, Some (gcry_mac_get_algo_keylen ml a))
      else (gcry_error GPG_ERR_MAC_ALGO, Some n))"
    by (rule algo_info_get_keylen)
  have 5: "gpg_err_code (gcry_error GPG_ERR_MAC_ALGO) = GPG_ERR_MAC_ALGO"
    by (rule gpg_err_code_known)
  have 6: "gpg_err_code (gcry_error GPG_ERR_INV_OP) = GPG_ERR_INV_OP"
    by (rule gpg_err_code_known)
  have 7: "GPG_ERR_INV_OP \<noteq> GPG_ERR_MAC_ALGO"
    by (rule err_codes_distinct)
  have 8: "GPG_ERR_INV_OP \<noteq> GPG_ERR_INV_ARG"
    using err_codes_distinct(1) by simp
  from 1 2 4 5 3 6 7 8 show ?thesis by (intro conjI)
qed

theorem key_length_queries_witness:
  "resolves sample_list 101 0 \<and>
   (999::int) \<notin> algo ` set sample_list \<and>
   (4::int) \<noteq> GCRYCTL_GET_KEYLEN \<and> (4::int) \<noteq> GCRYCTL_TEST_ALGO \<and>
   gcry_mac_get_algo_keylen sample_list 101 = 16 \<and>
   gcry_mac_get_algo_maclen sample_list 101 = 4 \<and>
   gcry_mac_get_algo_keylen sample_list 999 = 0 \<and>
   gcry_mac_algo_info sample_list 101 GCRYCTL_GET_KEYLEN None (Some 0) = (0, Some 16) \<and>
   gcry_mac_algo_info sample_list 106 GCRYCTL_GET_KEYLEN None (Some 3)
     = (gcry_error GPG_ERR_MAC_ALGO, Some 3) \<and>
   gcry_mac_algo_info sample_list 101 4 None None = (gcry_error GPG_ERR_INV_OP, None)"
proof -
  have h1: "resolves sample_list 101 0"
    by (simp add: resolves_iff spec_from_algo_def sample_list_def)
  have h4: "(999::int) \<notin> algo ` set sample_list" by (simp add: sample_list_def)
  have h5: "(4::int) \<noteq> GCRYCTL_GET_KEYLEN \<and> (4::int) \<noteq> GCRYCTL_TEST_ALGO"
    by (simp add: GCRYCTL_GET_KEYLEN_def GCRYCTL_TEST_ALGO_def)
  have o: "ops (sample_list ! 0) = Some counter_ops" by (simp add: sample_list_def)
  have k: "ops_get_keylen counter_ops = Some (\<lambda>a. 16)"
    and l: "ops_get_maclen counter_ops = Some (\<lambda>a. 4)"
    by (simp_all add: counter_ops_def)
  have z: "gcry_mac_get_algo_keylen sample_list 106 = 0" by code_simp
  note t1 = key_length_queries [of 101 sample_list 0 0 4 None None]
  note t2 = key_length_queries [of 999 sample_list 0 0 4 None None]
  note t3 = key_length_queries [of 106 sample_list 0 3 4 None None]
  from t1 h1 h5 o k l
  have a: "gcry_mac_get_algo_keylen sample_list 101 = 16"
    "gcry_mac_get_algo_maclen sample_list 101 = 4"
    "gcry_mac_algo_info sample_list 101 4 None None = (gcry_error GPG_ERR_INV_OP, None)"
    by simp_all
  from t1 a(1)
  have b: "gcry_mac_algo_info sample_list 101 GCRYCTL_GET_KEYLEN None (Some 0) = (0, Some 16)"
    by simp
  from t2 h4 have c: "gcry_mac_get_algo_keylen sample_list 999 = 0" by simp
  from t3 z have d: "gcry_mac_algo_info sample_list 106 GCRYCTL_GET_KEYLEN None (Some 3)
     = (gcry_error GPG_ERR_MAC_ALGO, Some 3)" by simp
  from h1 h4 h5 a b c d show ?thesis by simp
qed


section \<open>Missing capabilities\<close>

lemma mac_setkey_missing:
  "hd_ops ml m h = Some t \<Longrightarrow> ops_setkey t = None \<Longrightarrow>
     mac_setkey ml m h key keylen = Some (GPG_ERR_INV_ARG, m)"
  by (simp add: mac_setkey_def)

lemma mac_setiv_missing:
  "hd_ops ml m h = Some t \<Longrightarrow> ops_setiv t = None \<Longrightarrow>
     mac_setiv ml m h iv ivlen = Some (GPG_ERR_INV_ARG, m)"
  by (simp add: mac_setiv_def)

lemma mac_write_missing:
  "hd_ops ml m h = Some t \<Longrightarrow> ops_write t = None \<Longrightarrow>
     mac_write ml m h inbuf inlen = Some (GPG_ERR_INV_ARG, m)"
  by (simp add: mac_write_def)

lemma mac_read_missing:
  "hd_ops ml m h = Some t \<Longrightarrow> ops_read t = None \<Longrightarrow>
     mac_read ml m h outbuf outlen = Some (GPG_ERR_INV_ARG, m, outbuf, outlen)"
  by (simp add: mac_read_def split: option.splits)

lemma mac_verify_missing:
  "hd_ops ml m h = Some t \<Longrightarrow> ops_verify t = None \<Longrightarrow>
     mac_verify ml m h buf buflen = Some (GPG_ERR_INV_ARG, m)"
  by (simp add: mac_verify_def split: option.splits)

text \<open>
  Claim C1, as the code has it.  On a live handle whose descriptor has a
  capability table, each of \<open>setkey\<close>, \<open>setiv\<close>, \<open>write\<close>, \<open>read\<close> and \<open>verify\<close>
  answers a missing table entry with \<open>GPG_ERR_INV_ARG\<close>, the code of the
  invalid-argument kind and not \<open>GPG_ERR_INV_OP\<close>, and leaves memory, and with
  it the handle, as it was.
\<close>

theorem missing_capability_invalid_argument:
  assumes "hd_ops ml m h = Some t"
  shows "(ops_setkey t = None \<longrightarrow>
            mac_setkey ml m h key keylen = Some (GPG_ERR_INV_ARG, m) \<and>
            gcry_mac_setkey ml m h key keylen = Some (gpg_error GPG_ERR_INV_ARG, m)) \<and>
         (ops_setiv t = None \<longrightarrow>
            mac_setiv ml m h key keylen = Some (GPG_ERR_INV_ARG, m) \<and>
            gcry_mac_setiv ml m h key keylen = Some (gpg_error GPG_ERR_INV_ARG, m)) \<and>
         (ops_write t = None \<longrightarrow>
            mac_write ml m h key keylen = Some (GPG_ERR_INV_ARG, m) \<and>
            gcry_mac_write ml m h key keylen = Some (gpg_error GPG_ERR_INV_ARG, m)) \<and>
         (ops_read t = None \<longrightarrow>
            mac_read ml m h outbuf outlen = Some (GPG_ERR_INV_ARG, m, outbuf, outlen) \<and>
            gcry_mac_read ml m h outbuf outlen
              = Some (gpg_error GPG_ERR_INV_ARG, m, outbuf, outlen)) \<and>
         (ops_verify t = None \<longrightarrow>
            mac_verify ml m h key keylen = Some (GPG_ERR_INV_ARG, m) \<and>
            gcry_mac_verify ml m h key keylen = Some (gpg_error GPG_ERR_INV_ARG, m)) \<and>
         gpg_err_code (gpg_error GPG_ERR_INV_ARG) = GPG_ERR_INV_ARG \<and>
         GPG_ERR_INV_ARG \<noteq> GPG_ERR_INV_OP"
proof -
  have 1: "ops_setkey t = None \<longrightarrow>
            mac_setkey ml m h key keylen = Some (GPG_ERR_INV_ARG, m) \<and>
            gcry_mac_setkey ml m h key keylen = Some (gpg_error GPG_ERR_INV_ARG, m)"
    using mac_setkey_missing [OF assms] by (simp add: gcry_mac_setkey_def)
  have 2: "ops_setiv t = None \<longrightarrow>
            mac_setiv ml m h key keylen = Some (GPG_ERR_INV_ARG, m) \<and>
            gcry_mac_setiv ml m h key keylen = Some (gpg_error GPG_ERR_INV_ARG, m)"
    using mac_setiv_missing [OF assms] by (simp add: gcry_mac_setiv_def)
  have 3: "ops_write t = None \<longrightarrow>
            mac_write ml m h key keylen = Some (GPG_ERR_INV_ARG, m) \<and>
            gcry_mac_write ml m h key keylen = Some (gpg_error GPG_ERR_INV_ARG, m)"
    using mac_write_missing [OF assms] by (simp add: gcry_mac_write_def)
  have 4: "ops_read t = None \<longrightarrow>
            mac_read ml m h outbuf outlen = Some (GPG_ERR_INV_ARG, m, outbuf, outlen) \<and>
            gcry_mac_read ml m h outbuf outlen
              = Some (gpg_error GPG_ERR_INV_ARG, m, outbuf, outlen)"
    using mac_read_missing [OF assms] by (simp add: gcry_mac_read_def)
  have 5: "ops_verify t = None \<longrightarrow>
            mac_verify ml m h key keylen = Some (GPG_ERR_INV_ARG, m) \<and>
            gcry_mac_verify ml m h key keylen = Some (gpg_error GPG_ERR_INV_ARG, m)"
    using mac_verify_missing [OF assms] by (simp add: gcry_mac_verify_def)
  have 6: "gpg_err_code (gpg_error GPG_ERR_INV_ARG) = GPG_ERR_INV_ARG"
    by (rule gpg_err_code_known)
  have 7: "GPG_ERR_INV_ARG \<noteq> GPG_ERR_INV_OP"
    by (rule err_codes_distinct)
  from 1 2 3 4 5 6 7 show ?thesis by (intro conjI)
qed

lemma open_sample_101:
  "gcry_mac_open sample_list fresh_memory 101 0 None =
     (0, Some 10,
      \<lparr>cells = (\<lambda>a. zero_handle)
         (10 := \<lparr>hd_magic = CTX_MAGIC_NORMAL, hd_spec = Some 0, hd_algo = 101,
                hd_gcry_ctx = None, hd_u = 1\<rparr>),
       owner = (\<lambda>a. None)(10 := Some Normal),
       room = (\<lambda>p. case p of Normal \<Rightarrow> [10, 11] | Secure \<Rightarrow> [20])(Normal := [11]),
       trace = [Alloc Normal 10, Called Open 10]\<rparr>)"
  by (simp add: gcry_mac_open_def mac_open_def spec_from_algo_def sample_list_def
      counter_ops_def fresh_memory_def gcry_calloc_def calloc_from_def call_hd_def
      zero_handle_def GCRY_MAC_FLAG_SECURE_def gpg_error_def gpg_err_make_def
      GPG_ERR_NO_ERROR_def)

lemma opened_memory_eq:
  "opened_memory =
      \<lparr>cells = (\<lambda>a. zero_handle)
         (10 := \<lparr>hd_magic = CTX_MAGIC_NORMAL, hd_spec = Some 0, hd_algo = 101,
                hd_gcry_ctx = None, hd_u = 1\<rparr>),
       owner = (\<lambda>a. None)(10 := Some Normal),
       room = (\<lambda>p. case p of Normal \<Rightarrow> [10, 11] | Secure \<Rightarrow> [20])(Normal := [11]),
       trace = [Alloc Normal 10, Called Open 10]\<rparr>"
  by (simp add: opened_memory_def open_sample_101)

lemma hd_ops_opened: "hd_ops sample_list opened_memory 10 = Some counter_ops"
  by (simp add: hd_ops_def opened_memory_eq sample_list_def)

theorem missing_capability_invalid_argument_witness:
  "hd_ops sample_list opened_memory 10 = Some counter_ops \<and>
   ops_setiv counter_ops = None \<and>
   mac_setiv sample_list opened_memory 10 (Some [1, 2]) 2 = Some (GPG_ERR_INV_ARG, opened_memory)"
proof -
  have s: "ops_setiv counter_ops = None" by (simp add: counter_ops_def)
  from missing_capability_invalid_argument [OF hd_ops_opened, of "Some [1, 2]" 2] s hd_ops_opened
  show ?thesis by simp
qed

text \<open>
  Claim C1 as stated fails: the handle opened for id 101 of the sample registry
  has no \<open>setiv\<close>, and \<open>gcry_mac_setiv\<close> on it does not return the
  unsupported-operation code.
\<close>

theorem missing_capability_counterexample:
  "fst (gcry_mac_open sample_list fresh_memory 101 0 None) = 0 \<and>
   fst (snd (gcry_mac_open sample_list fresh_memory 101 0 None)) = Some 10 \<and>
   hd_ops sample_list opened_memory 10 = Some counter_ops \<and>
   ops_setiv counter_ops = None \<and>
   mac_setiv sample_list opened_memory 10 (Some [1, 2]) 2 = Some (GPG_ERR_INV_ARG, opened_memory) \<and>
   gcry_mac_setiv sample_list opened_memory 10 (Some [1, 2]) 2
     \<noteq> Some (gpg_error GPG_ERR_INV_OP, opened_memory)"
proof -
  have s: "ops_setiv counter_ops = None" by (simp add: counter_ops_def)
  have r: "mac_setiv sample_list opened_memory 10 (Some [1, 2]) 2
             = Some (GPG_ERR_INV_ARG, opened_memory)"
    using hd_ops_opened s by (rule mac_setiv_missing)
  have ne: "gpg_error GPG_ERR_INV_ARG \<noteq> gpg_error GPG_ERR_INV_OP"
    using gpg_err_code_known(1,2) err_codes_distinct(1) by metis
  from r ne have g: "gcry_mac_setiv sample_list opened_memory 10 (Some [1, 2]) 2
     \<noteq> Some (gpg_error GPG_ERR_INV_OP, opened_memory)"
    by (simp add: gcry_mac_setiv_def)
  from open_sample_101 hd_ops_opened s r g show ?thesis by simp
qed


section \<open>Argument validation\<close>

lemma mac_setkey_forward:
  "hd_ops ml m h = Some t \<Longrightarrow> ops_setkey t = Some f \<Longrightarrow> keylen = 0 \<or> key \<noteq> None \<Longrightarrow>
     mac_setkey ml m h key keylen =
       Some (fst (f (cells m h) key keylen),
             m\<lparr>cells := (cells m)(h := snd (f (cells m h) key keylen)),
               trace := trace m @ [Called Setkey h]\<rparr>)"
  by (auto simp: mac_setkey_def call_hd_def split: prod.splits)

lemma mac_setiv_forward:
  "hd_ops ml m h = Some t \<Longrightarrow> ops_setiv t = Some f \<Longrightarrow> ivlen = 0 \<or> iv \<noteq> None \<Longrightarrow>
     mac_setiv ml m h iv ivlen =
       Some (fst (f (cells m h) iv ivlen),
             m\<lparr>cells := (cells m)(h := snd (f (cells m h) iv ivlen)),
               trace := trace m @ [Called Setiv h]\<rparr>)"
  by (auto simp: mac_setiv_def call_hd_def split: prod.splits)

lemma mac_write_forward:
  "hd_ops ml m h = Some t \<Longrightarrow> ops_write t = Some f \<Longrightarrow> inlen = 0 \<or> inbuf \<noteq> None \<Longrightarrow>
     mac_write ml m h inbuf inlen =
       Some (fst (f (cells m h) inbuf inlen),
             m\<lparr>cells := (cells m)(h := snd (f (cells m h) inbuf inlen)),
               trace := trace m @ [Called Write h]\<rparr>)"
  by (auto simp: mac_write_def call_hd_def split: prod.splits)

lemma mac_setkey_null:
  "hd_ops ml m h = Some t \<Longrightarrow> 0 < keylen \<Longrightarrow>
     mac_setkey ml m h None keylen = Some (GPG_ERR_INV_ARG, m)"
  by (simp add: mac_setkey_def split: option.splits)

lemma mac_setiv_null:
  "hd_ops ml m h = Some t \<Longrightarrow> 0 < ivlen \<Longrightarrow>
     mac_setiv ml m h None ivlen = Some (GPG_ERR_INV_ARG, m)"
  by (simp add: mac_setiv_def split: option.splits)

lemma mac_write_null:
  "hd_ops ml m h = Some t \<Longrightarrow> 0 < inlen \<Longrightarrow>
     mac_write ml m h None inlen = Some (GPG_ERR_INV_ARG, m)"
  by (simp add: mac_write_def split: option.splits)

lemma mac_read_invalid:
  "outbuf = None \<or> outlen = None \<or> outlen = Some 0 \<Longrightarrow>
     mac_read ml m h outbuf outlen = Some (GPG_ERR_INV_ARG, m, outbuf, outlen)"
  by (auto simp: mac_read_def split: option.splits)

text \<open>
  Claim C5, as the code has it.  On a live handle whose descriptor provides the
  operation, \<open>setkey\<close>, \<open>setiv\<close> and \<open>write\<close> with a null pointer and length 0
  are forwarded: the result, success or error, is the callback's own on the null
  pointer and length 0, and the handle is as the callback left it.
  With a null pointer and a positive length they return \<open>GPG_ERR_INV_ARG\<close> and
  nothing is called.  \<open>read\<close> returns \<open>GPG_ERR_INV_ARG\<close>, on any handle value,
  when \<open>outbuf\<close> is null, \<open>outlen\<close> is null or \<open>*outlen\<close> is 0.
\<close>

theorem generic_argument_validation:
  assumes "hd_ops ml m h = Some t"
  shows "(\<forall>f. ops_setkey t = Some f \<longrightarrow>
            mac_setkey ml m h None 0 =
              Some (fst (f (cells m h) None 0),
                    m\<lparr>cells := (cells m)(h := snd (f (cells m h) None 0)),
                      trace := trace m @ [Called Setkey h]\<rparr>)) \<and>
         (\<forall>f. ops_setiv t = Some f \<longrightarrow>
            mac_setiv ml m h None 0 =
              Some (fst (f (cells m h) None 0),
                    m\<lparr>cells := (cells m)(h := snd (f (cells m h) None 0)),
                      trace := trace m @ [Called Setiv h]\<rparr>)) \<and>
         (\<forall>f. ops_write t = Some f \<longrightarrow>
            mac_write ml m h None 0 =
              Some (fst (f (cells m h) None 0),
                    m\<lparr>cells := (cells m)(h := snd (f (cells m h) None 0)),
                      trace := trace m @ [Called Write h]\<rparr>)) \<and>
         (0 < len \<longrightarrow>
            mac_setkey ml m h None len = Some (GPG_ERR_INV_ARG, m) \<and>
            mac_setiv ml m h None len = Some (GPG_ERR_INV_ARG, m) \<and>
            mac_write ml m h None len = Some (GPG_ERR_INV_ARG, m)) \<and>
         (outbuf = None \<or> outlen = None \<or> outlen = Some 0 \<longrightarrow>
            mac_read ml m h' outbuf outlen = Some (GPG_ERR_INV_ARG, m, outbuf, outlen) \<and>
            gcry_mac_read ml m h' outbuf outlen
              = Some (gpg_error GPG_ERR_INV_ARG, m, outbuf, outlen)) \<and>
         gpg_err_code (gpg_error GPG_ERR_INV_ARG) = GPG_ERR_INV_ARG"
proof -
  have 1: "\<forall>f. ops_setkey t = Some f \<longrightarrow>
            mac_setkey ml m h None 0 =
              Some (fst (f (cells m h) None 0),
                    m\<lparr>cells := (cells m)(h := snd (f (cells m h) None 0)),
                      trace := trace m @ [Called Setkey h]\<rparr>)"
    using mac_setkey_forward [OF assms, of _ 0 None] by blast
  have 2: "\<forall>f. ops_setiv t = Some f \<longrightarrow>
            mac_setiv ml m h None 0 =
              Some (fst (f (cells m h) None 0),
                    m\<lparr>cells := (cells m)(h := snd (f (cells m h) None 0)),
                      trace := trace m @ [Called Setiv h]\<rparr>)"
    using mac_setiv_forward [OF assms, of _ 0 None] by blast
  have 3: "\<forall>f. ops_write t = Some f \<longrightarrow>
            mac_write ml m h None 0 =
              Some (fst (f (cells m h) None 0),
                    m\<lparr>cells := (cells m)(h := snd (f (cells m h) None 0)),
                      trace := trace m @ [Called Write h]\<rparr>)"
    using mac_write_forward [OF assms, of _ 0 None] by blast
  have 4: "0 < len \<longrightarrow>
            mac_setkey ml m h None len = Some (GPG_ERR_INV_ARG, m) \<and>
            mac_setiv ml m h None len = Some (GPG_ERR_INV_ARG, m) \<and>
            mac_write ml m h None len = Some (GPG_ERR_INV_ARG, m)"
    using mac_setkey_null [OF assms] mac_setiv_null [OF assms] mac_write_null [OF assms]
    by blast
  have 5: "outbuf = None \<or> outlen = None \<or> outlen = Some 0 \<longrightarrow>
            mac_read ml m h' outbuf outlen = Some (GPG_ERR_INV_ARG, m, outbuf, outlen) \<and>
            gcry_mac_read ml m h' outbuf outlen
              = Some (gpg_error GPG_ERR_INV_ARG, m, outbuf, outlen)"
    using mac_read_invalid [of outbuf outlen ml m h'] by (simp add: gcry_mac_read_def)
  have 6: "gpg_err_code (gpg_error GPG_ERR_INV_ARG) = GPG_ERR_INV_ARG"
    by (rule gpg_err_code_known)
  from 1 2 3 4 5 6 show ?thesis by (intro conjI)
qed

theorem generic_argument_validation_witness:
  "hd_ops sample_list opened_memory 10 = Some counter_ops \<and>
   mac_setkey sample_list opened_memory 10 None 0 =
     Some (0, opened_memory\<lparr>trace := trace opened_memory @ [Called Setkey 10]\<rparr>) \<and>
   mac_write sample_list opened_memory 10 None 0 =
     Some (0, opened_memory\<lparr>trace := trace opened_memory @ [Called Write 10]\<rparr>) \<and>
   mac_setkey sample_list opened_memory 10 None 3 = Some (GPG_ERR_INV_ARG, opened_memory) \<and>
   mac_read sample_list opened_memory 10 (Some [0, 0]) (Some 0)
     = Some (GPG_ERR_INV_ARG, opened_memory, Some [0, 0], Some 0)"
proof -
  note t = generic_argument_validation [OF hd_ops_opened, of 3 "Some [0, 0]" "Some 0" 10]
  have k: "ops_setkey counter_ops = Some (\<lambda>h key keylen. (0, h\<lparr>hd_u := hd_u h + keylen\<rparr>))"
    and w: "ops_write counter_ops = Some (\<lambda>h inbuf inlen. (0, h\<lparr>hd_u := hd_u h + inlen\<rparr>))"
    by (simp_all add: counter_ops_def)
  have c: "(cells opened_memory)(10 := cells opened_memory 10) = cells opened_memory"
    by (rule fun_upd_triv)
  from t k have a: "mac_setkey sample_list opened_memory 10 None 0 =
     Some (0, opened_memory\<lparr>trace := trace opened_memory @ [Called Setkey 10]\<rparr>)"
    by (simp add: c)
  from t w have b: "mac_write sample_list opened_memory 10 None 0 =
     Some (0, opened_memory\<lparr>trace := trace opened_memory @ [Called Write 10]\<rparr>)"
    by (simp add: c)
  from t a b hd_ops_opened show ?thesis by simp
qed



lemma open_strict_110:
  "gcry_mac_open strict_list fresh_memory 110 0 None =
     (0, Some 10,
      \<lparr>cells = (\<lambda>a. zero_handle)
         (10 := \<lparr>hd_magic = CTX_MAGIC_NORMAL, hd_spec = Some 0, hd_algo = 110,
                hd_gcry_ctx = None, hd_u = 1\<rparr>),
       owner = (\<lambda>a. None)(10 := Some Normal),
       room = (\<lambda>p. case p of Normal \<Rightarrow> [10, 11] | Secure \<Rightarrow> [20])(Normal := [11]),
       trace = [Alloc Normal 10, Called Open 10]\<rparr>)"
  by (simp add: gcry_mac_open_def mac_open_def spec_from_algo_def strict_list_def
      strict_ops_def counter_ops_def fresh_memory_def gcry_calloc_def calloc_from_def
      call_hd_def zero_handle_def GCRY_MAC_FLAG_SECURE_def gpg_error_def gpg_err_make_def
      GPG_ERR_NO_ERROR_def)

lemma strict_memory_eq:
  "strict_memory =
      \<lparr>cells = (\<lambda>a. zero_handle)
         (10 := \<lparr>hd_magic = CTX_MAGIC_NORMAL, hd_spec = Some 0, hd_algo = 110,
                hd_gcry_ctx = None, hd_u = 1\<rparr>),
       owner = (\<lambda>a. None)(10 := Some Normal),
       room = (\<lambda>p. case p of Normal \<Rightarrow> [10, 11] | Secure \<Rightarrow> [20])(Normal := [11]),
       trace = [Alloc Normal 10, Called Open 10]\<rparr>"
  by (simp add: strict_memory_def open_strict_110)

lemma hd_ops_strict: "hd_ops strict_list strict_memory 10 = Some strict_ops"
  by (simp add: hd_ops_def strict_memory_eq strict_list_def)

text \<open>
  Claim C5 as stated fails: on the handle opened for id 110 of the one-descriptor
  registry, whose descriptor provides \<open>setkey\<close>, the call with a null pointer and
  length 0 is forwarded and comes back with \<open>GPG_ERR_INV_ARG\<close> and a changed
  context, neither a success nor a no-op.
\<close>

theorem forwarded_empty_key_counterexample:
  "fst (gcry_mac_open strict_list fresh_memory 110 0 None) = 0 \<and>
   fst (snd (gcry_mac_open strict_list fresh_memory 110 0 None)) = Some 10 \<and>
   hd_ops strict_list strict_memory 10 = Some strict_ops \<and>
   ops_setkey strict_ops \<noteq> None \<and>
   hd_u (cells strict_memory 10) = 1 \<and>
   mac_setkey strict_list strict_memory 10 None 0 =
     Some (GPG_ERR_INV_ARG,
           strict_memory\<lparr>cells := (cells strict_memory)
                             (10 := (cells strict_memory 10)\<lparr>hd_u := 99\<rparr>),
                          trace := trace strict_memory @ [Called Setkey 10]\<rparr>) \<and>
   gcry_mac_setkey strict_list strict_memory 10 None 0 =
     Some (gpg_error GPG_ERR_INV_ARG,
           strict_memory\<lparr>cells := (cells strict_memory)
                             (10 := (cells strict_memory 10)\<lparr>hd_u := 99\<rparr>),
                          trace := trace strict_memory @ [Called Setkey 10]\<rparr>) \<and>
   gpg_error GPG_ERR_INV_ARG \<noteq> 0"
proof -
  have k: "ops_setkey strict_ops =
             Some (\<lambda>h key keylen.
                     if keylen = 0 then (GPG_ERR_INV_ARG, h\<lparr>hd_u := 99\<rparr>)
                     else (0, h\<lparr>hd_u := hd_u h + keylen\<rparr>))"
    by (simp add: strict_ops_def counter_ops_def)
  then have k': "ops_setkey strict_ops \<noteq> None" by simp
  have u: "hd_u (cells strict_memory 10) = 1" by (simp add: strict_memory_eq)
  have r: "mac_setkey strict_list strict_memory 10 None 0 =
     Some (GPG_ERR_INV_ARG,
           strict_memory\<lparr>cells := (cells strict_memory)
                             (10 := (cells strict_memory 10)\<lparr>hd_u := 99\<rparr>),
                          trace := trace strict_memory @ [Called Setkey 10]\<rparr>)"
    using mac_setkey_forward [OF hd_ops_strict k, of 0 None] by simp
  have g: "gcry_mac_setkey strict_list strict_memory 10 None 0 =
     Some (gpg_error GPG_ERR_INV_ARG,
           strict_memory\<lparr>cells := (cells strict_memory)
                             (10 := (cells strict_memory 10)\<lparr>hd_u := 99\<rparr>),
                          trace := trace strict_memory @ [Called Setkey 10]\<rparr>)"
    by (simp add: gcry_mac_setkey_def r)
  have nz: "gpg_error GPG_ERR_INV_ARG \<noteq> 0"
    using err_codes_distinct(4) by (simp add: gpg_error_zero_iff)
  have o1: "fst (gcry_mac_open strict_list fresh_memory 110 0 None) = 0"
    and o2: "fst (snd (gcry_mac_open strict_list fresh_memory 110 0 None)) = Some 10"
    by (simp_all add: open_strict_110)
  from o1 o2 hd_ops_strict k' u r g nz show ?thesis by (intro conjI)
qed


section \<open>Opening a handle\<close>

lemma calloc_pool:
  "(if secure then gcry_calloc_secure m else gcry_calloc m) = calloc_from (pool_of secure) m"
  by (simp add: gcry_calloc_secure_def gcry_calloc_def pool_of_def)

lemma stamp_magic:
  "(if secure then CTX_MAGIC_SECURE else CTX_MAGIC_NORMAL) = magic_of (pool_of secure)"
  by (simp add: magic_of_def pool_of_def)

lemma mac_open_unknown:
  "a \<notin> algo ` set ml \<Longrightarrow> mac_open ml m slot a secure ctx = (GPG_ERR_MAC_ALGO, slot, m)"
  using spec_from_algo_None [of ml a] by (simp add: mac_open_def)

lemma mac_open_unusable:
  assumes "resolves ml a i"
    and "flags_disabled (ml ! i) \<or> ops (ml ! i) = None \<or>
         (\<exists>t. ops (ml ! i) = Some t \<and> \<not> complete_ops t)"
  shows "mac_open ml m slot a secure ctx = (GPG_ERR_MAC_ALGO, slot, m)"
proof -
  from assms(1) have i: "spec_from_algo ml a = Some i" by (simp add: resolves_iff)
  from assms(2) show ?thesis
    by (auto simp: mac_open_def i complete_ops_def split: option.splits)
qed

lemma mac_open_usable:
  assumes "resolves ml a i" and "\<not> flags_disabled (ml ! i)" and "ops (ml ! i) = Some t"
    and "complete_ops t"
  shows "mac_open ml m slot a secure ctx =
          (case calloc_from (pool_of secure) m of
             (None, m1) \<Rightarrow> (GPG_ERR_ENOMEM, slot, m1)
           | (Some h, m1) \<Rightarrow>
               (case call_hd Open h (the (ops_open t))
                       (m1\<lparr>cells := (cells m1)(h := (cells m1 h)
                             \<lparr>hd_magic := magic_of (pool_of secure), hd_spec := Some i,
                              hd_algo := a, hd_gcry_ctx := ctx\<rparr>)\<rparr>) of
                  (err, m3) \<Rightarrow>
                    if err \<noteq> 0 then (err, slot, gcry_free m3 h) else (err, Some h, m3)))"
proof -
  from assms(1) have i: "spec_from_algo ml a = Some i" by (simp add: resolves_iff)
  from assms(4) have c: "\<not> (ops_open t = None \<or> ops_write t = None \<or> ops_setkey t = None \<or>
                    ops_read t = None \<or> ops_verify t = None \<or> ops_reset t = None)"
    by (simp add: complete_ops_def)
  show ?thesis
    unfolding mac_open_def i option.case if_not_P [OF assms(2)] assms(3) if_not_P [OF c]
      calloc_pool stamp_magic gpg_err_code_from_syserror_def Let_def
    by (rule refl)
qed

lemma mac_open_nomem:
  assumes "resolves ml a i" and "\<not> flags_disabled (ml ! i)" and "ops (ml ! i) = Some t"
    and "complete_ops t" and "room m (pool_of secure) = []"
  shows "mac_open ml m slot a secure ctx = (GPG_ERR_ENOMEM, slot, m)"
  using assms(5) by (simp add: mac_open_usable [OF assms(1-4)] calloc_from_def)

lemma mac_open_allocated:
  assumes "resolves ml a i" and "\<not> flags_disabled (ml ! i)" and "ops (ml ! i) = Some t"
    and "complete_ops t" and "room m (pool_of secure) = h # rest" and "ops_open t = Some f"
  shows "mac_open ml m slot a secure ctx =
          (let h0 = zero_handle\<lparr>hd_magic := magic_of (pool_of secure), hd_spec := Some i,
                                 hd_algo := a, hd_gcry_ctx := ctx\<rparr>;
               m3 = m\<lparr>cells := (cells m)(h := snd (f h0)),
                      owner := (owner m)(h := Some (pool_of secure)),
                      room := (room m)(pool_of secure := rest),
                      trace := trace m @ [Alloc (pool_of secure) h, Called Open h]\<rparr>
           in if fst (f h0) \<noteq> 0
              then (fst (f h0), slot,
                    m3\<lparr>owner := (owner m3)(h := None), trace := trace m3 @ [Freed h]\<rparr>)
              else (0, Some h, m3))"
  using assms(5,6)
  by (auto simp: mac_open_usable [OF assms(1-4)] calloc_from_def call_hd_def gcry_free_def
      Let_def split: prod.splits)

lemma mac_open_error_slot:
  assumes "mac_open ml m slot a secure ctx = (err, slot', m')" and "err \<noteq> 0"
  shows "slot' = slot \<and> (\<forall>x. owner m' x \<noteq> None \<longrightarrow> owner m x \<noteq> None)"
proof (cases "spec_from_algo ml a")
  case None
  with assms show ?thesis by (simp add: mac_open_def)
next
  case (Some i)
  then have r: "resolves ml a i" by (simp add: resolves_iff)
  show ?thesis
  proof (cases "flags_disabled (ml ! i) \<or> ops (ml ! i) = None \<or>
         (\<exists>t. ops (ml ! i) = Some t \<and> \<not> complete_ops t)")
    case True
    from mac_open_unusable [OF r True] assms show ?thesis by simp
  next
    case False
    then obtain t where t: "\<not> flags_disabled (ml ! i)" "ops (ml ! i) = Some t" "complete_ops t"
      by auto
    from t(3) obtain f where f: "ops_open t = Some f" by (auto simp: complete_ops_def)
    show ?thesis
    proof (cases "room m (pool_of secure)")
      case Nil
      from mac_open_nomem [OF r t Nil] assms show ?thesis by simp
    next
      case (Cons h rest)
      from mac_open_allocated [OF r t Cons f, of slot ctx] assms show ?thesis
        by (auto simp: Let_def split: if_splits)
    qed
  qed
qed

lemma gcry_mac_open_bad_flags:
  "flags AND NOT GCRY_MAC_FLAG_SECURE \<noteq> 0 \<Longrightarrow>
     gcry_mac_open ml m a flags ctx = (gpg_error GPG_ERR_INV_ARG, None, m)"
  using err_codes_distinct(4) by (simp add: gcry_mac_open_def)

lemma gcry_mac_open_good_flags:
  "flags AND NOT GCRY_MAC_FLAG_SECURE = 0 \<Longrightarrow>
     gcry_mac_open ml m a flags ctx =
       (case mac_open ml m None a (flags AND GCRY_MAC_FLAG_SECURE \<noteq> 0) ctx of
          (err, h, m') \<Rightarrow> (gpg_error err, if err \<noteq> 0 then None else h, m'))"
  by (simp add: gcry_mac_open_def)

lemma gcry_mac_open_unusable:
  assumes "flags AND NOT GCRY_MAC_FLAG_SECURE = 0"
    and "a \<notin> algo ` set ml \<or>
         (\<exists>i. resolves ml a i \<and>
            (flags_disabled (ml ! i) \<or> ops (ml ! i) = None \<or>
             (\<exists>t. ops (ml ! i) = Some t \<and> \<not> complete_ops t)))"
  shows "gcry_mac_open ml m a flags ctx = (gpg_error GPG_ERR_MAC_ALGO, None, m)"
proof -
  from assms(2)
  have "mac_open ml m None a (flags AND GCRY_MAC_FLAG_SECURE \<noteq> 0) ctx
          = (GPG_ERR_MAC_ALGO, None, m)"
    using mac_open_unknown mac_open_unusable by blast
  then show ?thesis
    using err_codes_distinct(6) by (simp add: gcry_mac_open_good_flags [OF assms(1)])
qed

lemma gcry_mac_open_callback_fails:
  assumes "flags AND NOT GCRY_MAC_FLAG_SECURE = 0"
    and "resolves ml a i" and "\<not> flags_disabled (ml ! i)" and "ops (ml ! i) = Some t"
    and "complete_ops t" and "ops_open t = Some f"
    and "room m (pool_of (flags AND GCRY_MAC_FLAG_SECURE \<noteq> 0)) = h # rest"
    and "fst (f (zero_handle\<lparr>hd_magic := magic_of (pool_of (flags AND GCRY_MAC_FLAG_SECURE \<noteq> 0)),
                             hd_spec := Some i, hd_algo := a, hd_gcry_ctx := ctx\<rparr>)) \<noteq> 0"
  shows "gcry_mac_open ml m a flags ctx =
           (gpg_error
              (fst (f (zero_handle\<lparr>hd_magic := magic_of (pool_of (flags AND GCRY_MAC_FLAG_SECURE \<noteq> 0)),
                             hd_spec := Some i, hd_algo := a, hd_gcry_ctx := ctx\<rparr>))),
            None,
            m\<lparr>cells := (cells m)
                 (h := snd (f (zero_handle\<lparr>hd_magic := magic_of (pool_of (flags AND GCRY_MAC_FLAG_SECURE \<noteq> 0)),
                             hd_spec := Some i, hd_algo := a, hd_gcry_ctx := ctx\<rparr>))),
              owner := (owner m)(h := None),
              room := (room m)(pool_of (flags AND GCRY_MAC_FLAG_SECURE \<noteq> 0) := rest),
              trace := trace m @ [Alloc (pool_of (flags AND GCRY_MAC_FLAG_SECURE \<noteq> 0)) h,
                                  Called Open h, Freed h]\<rparr>)"
  using assms(8)
  by (simp add: gcry_mac_open_good_flags [OF assms(1)]
      mac_open_allocated [OF assms(2-5) assms(7) assms(6)] Let_def)

lemma gcry_mac_open_error_slot:
  assumes "fst (gcry_mac_open ml m a flags ctx) \<noteq> 0"
  shows "fst (snd (gcry_mac_open ml m a flags ctx)) = None \<and>
         (\<forall>x. owner (snd (snd (gcry_mac_open ml m a flags ctx))) x \<noteq> None \<longrightarrow> owner m x \<noteq> None)"
proof (cases "flags AND NOT GCRY_MAC_FLAG_SECURE = 0")
  case False
  then show ?thesis by (simp add: gcry_mac_open_bad_flags)
next
  case True
  obtain err slot' m' where
    r: "mac_open ml m None a (flags AND GCRY_MAC_FLAG_SECURE \<noteq> 0) ctx = (err, slot', m')"
    by (metis prod_cases3)
  from assms have "err \<noteq> 0"
    by (simp add: gcry_mac_open_good_flags [OF True] r gpg_error_zero_iff)
  with mac_open_error_slot [OF r] show ?thesis
    by (simp add: gcry_mac_open_good_flags [OF True] r)
qed

text \<open>
  Claim C3.  \<open>gcry_mac_open\<close> with a flag bit other than \<open>GCRY_MAC_FLAG_SECURE\<close>
  returns \<open>GPG_ERR_INV_ARG\<close> and leaves memory untouched, so nothing has been
  allocated.  With valid flags, an unregistered id, a disabled descriptor, a null
  capability table or a table lacking one of the six mandatory operations gives
  \<open>GPG_ERR_MAC_ALGO\<close>, again with memory untouched.  When the descriptor's open
  callback fails on the freshly allocated and stamped block, the block is
  released and the callback's error is returned.  Whenever the returned value is
  nonzero the handle slot \<open>*h\<close> is null and no block is live that was not live
  before.
\<close>

theorem gcry_mac_open_error_contract:
  "(flags AND NOT GCRY_MAC_FLAG_SECURE \<noteq> 0 \<longrightarrow>
      gcry_mac_open ml m a flags ctx = (gpg_error GPG_ERR_INV_ARG, None, m)) \<and>
   (flags AND NOT GCRY_MAC_FLAG_SECURE = 0 \<and>
    (a \<notin> algo ` set ml \<or>
     (\<exists>i. resolves ml a i \<and>
        (flags_disabled (ml ! i) \<or> ops (ml ! i) = None \<or>
         (\<exists>t. ops (ml ! i) = Some t \<and> \<not> complete_ops t)))) \<longrightarrow>
      gcry_mac_open ml m a flags ctx = (gpg_error GPG_ERR_MAC_ALGO, None, m)) \<and>
   (flags AND NOT GCRY_MAC_FLAG_SECURE = 0 \<and>
    resolves ml a i \<and> \<not> flags_disabled (ml ! i) \<and> ops (ml ! i) = Some t \<and>
    complete_ops t \<and> ops_open t = Some f \<and>
    room m (pool_of (flags AND GCRY_MAC_FLAG_SECURE \<noteq> 0)) = h # rest \<and>
    fst (f (zero_handle\<lparr>hd_magic := magic_of (pool_of (flags AND GCRY_MAC_FLAG_SECURE \<noteq> 0)),
                         hd_spec := Some i, hd_algo := a, hd_gcry_ctx := ctx\<rparr>)) \<noteq> 0 \<longrightarrow>
      gcry_mac_open ml m a flags ctx =
        (gpg_error
           (fst (f (zero_handle\<lparr>hd_magic := magic_of (pool_of (flags AND GCRY_MAC_FLAG_SECURE \<noteq> 0)),
                          hd_spec := Some i, hd_algo := a, hd_gcry_ctx := ctx\<rparr>))),
         None,
         m\<lparr>cells := (cells m)
              (h := snd (f (zero_handle\<lparr>hd_magic := magic_of (pool_of (flags AND GCRY_MAC_FLAG_SECURE \<noteq> 0)),
                          hd_spec := Some i, hd_algo := a, hd_gcry_ctx := ctx\<rparr>))),
           owner := (owner m)(h := None),
           room := (room m)(pool_of (flags AND GCRY_MAC_FLAG_SECURE \<noteq> 0) := rest),
           trace := trace m @ [Alloc (pool_of (flags AND GCRY_MAC_FLAG_SECURE \<noteq> 0)) h,
                               Called Open h, Freed h]\<rparr>)) \<and>
   (fst (gcry_mac_open ml m a flags ctx) \<noteq> 0 \<longrightarrow>
      fst (snd (gcry_mac_open ml m a flags ctx)) = None \<and>
      (\<forall>x. owner (snd (snd (gcry_mac_open ml m a flags ctx))) x \<noteq> None \<longrightarrow>
           owner m x \<noteq> None)) \<and>
   gpg_err_code (gpg_error GPG_ERR_INV_ARG) = GPG_ERR_INV_ARG \<and>
   gpg_err_code (gpg_error GPG_ERR_MAC_ALGO) = GPG_ERR_MAC_ALGO \<and>
   (gpg_error err = 0 \<longleftrightarrow> err = 0)"
proof -
  show ?thesis
  proof (intro conjI impI)
    assume "flags AND NOT GCRY_MAC_FLAG_SECURE \<noteq> 0"
    then show "gcry_mac_open ml m a flags ctx = (gpg_error GPG_ERR_INV_ARG, None, m)"
      by (rule gcry_mac_open_bad_flags)
  next
    assume "flags AND NOT GCRY_MAC_FLAG_SECURE = 0 \<and>
      (a \<notin> algo ` set ml \<or>
       (\<exists>i. resolves ml a i \<and>
          (flags_disabled (ml ! i) \<or> ops (ml ! i) = None \<or>
           (\<exists>t. ops (ml ! i) = Some t \<and> \<not> complete_ops t))))"
    then show "gcry_mac_open ml m a flags ctx = (gpg_error GPG_ERR_MAC_ALGO, None, m)"
      using gcry_mac_open_unusable [of flags a ml m ctx] by blast
  next
    assume "flags AND NOT GCRY_MAC_FLAG_SECURE = 0 \<and>
      resolves ml a i \<and> \<not> flags_disabled (ml ! i) \<and> ops (ml ! i) = Some t \<and>
      complete_ops t \<and> ops_open t = Some f \<and>
      room m (pool_of (flags AND GCRY_MAC_FLAG_SECURE \<noteq> 0)) = h # rest \<and>
      fst (f (zero_handle\<lparr>hd_magic := magic_of (pool_of (flags AND GCRY_MAC_FLAG_SECURE \<noteq> 0)),
                           hd_spec := Some i, hd_algo := a, hd_gcry_ctx := ctx\<rparr>)) \<noteq> 0"
    then show "gcry_mac_open ml m a flags ctx =
        (gpg_error
           (fst (f (zero_handle\<lparr>hd_magic := magic_of (pool_of (flags AND GCRY_MAC_FLAG_SECURE \<noteq> 0)),
                          hd_spec := Some i, hd_algo := a, hd_gcry_ctx := ctx\<rparr>))),
         None,
         m\<lparr>cells := (cells m)
              (h := snd (f (zero_handle\<lparr>hd_magic := magic_of (pool_of (flags AND GCRY_MAC_FLAG_SECURE \<noteq> 0)),
                          hd_spec := Some i, hd_algo := a, hd_gcry_ctx := ctx\<rparr>))),
           owner := (owner m)(h := None),
           room := (room m)(pool_of (flags AND GCRY_MAC_FLAG_SECURE \<noteq> 0) := rest),
           trace := trace m @ [Alloc (pool_of (flags AND GCRY_MAC_FLAG_SECURE \<noteq> 0)) h,
                               Called Open h, Freed h]\<rparr>)"
      using gcry_mac_open_callback_fails [of flags ml a i t f m h rest ctx] by blast
  next
    assume e: "fst (gcry_mac_open ml m a flags ctx) \<noteq> 0"
    from gcry_mac_open_error_slot [OF e]
    show "fst (snd (gcry_mac_open ml m a flags ctx)) = None" by blast
    from gcry_mac_open_error_slot [OF e]
    show "\<forall>x. owner (snd (snd (gcry_mac_open ml m a flags ctx))) x \<noteq> None \<longrightarrow>
           owner m x \<noteq> None" by blast
  next
    show "gpg_err_code (gpg_error GPG_ERR_INV_ARG) = GPG_ERR_INV_ARG"
      by (rule gpg_err_code_known)
    show "gpg_err_code (gpg_error GPG_ERR_MAC_ALGO) = GPG_ERR_MAC_ALGO"
      by (rule gpg_err_code_known)
    show "(gpg_error err = 0) = (err = 0)"
      by (rule gpg_error_zero_iff)
  qed
qed

lemma sample_resolves:
  "resolves sample_list 101 0" "resolves sample_list 105 1" "resolves sample_list 106 2"
  "resolves sample_list 107 3" "resolves sample_list 108 4" "resolves sample_list 109 5"
  by (simp_all add: resolves_iff spec_from_algo_def sample_list_def)

lemma sample_complete:
  "complete_ops counter_ops" "complete_ops closing_ops" "complete_ops failing_ops"
  by (simp_all add: complete_ops_def counter_ops_def closing_ops_def failing_ops_def)

theorem gcry_mac_open_error_contract_witness:
  "(2 :: 32 word) AND NOT GCRY_MAC_FLAG_SECURE \<noteq> 0 \<and>
   gcry_mac_open sample_list fresh_memory 101 2 None
     = (gpg_error GPG_ERR_INV_ARG, None, fresh_memory) \<and>
   (1 :: 32 word) AND NOT GCRY_MAC_FLAG_SECURE = 0 \<and>
   resolves sample_list 105 1 \<and> flags_disabled (sample_list ! 1) \<and>
   gcry_mac_open sample_list fresh_memory 105 1 None
     = (gpg_error GPG_ERR_MAC_ALGO, None, fresh_memory) \<and>
   (999 :: int) \<notin> algo ` set sample_list \<and>
   gcry_mac_open sample_list fresh_memory 999 1 None
     = (gpg_error GPG_ERR_MAC_ALGO, None, fresh_memory) \<and>
   resolves sample_list 106 2 \<and> ops (sample_list ! 2) = None \<and>
   gcry_mac_open sample_list fresh_memory 106 1 None
     = (gpg_error GPG_ERR_MAC_ALGO, None, fresh_memory) \<and>
   resolves sample_list 109 5 \<and> ops (sample_list ! 5) = Some partial_ops \<and>
   \<not> complete_ops partial_ops \<and>
   gcry_mac_open sample_list fresh_memory 109 1 None
     = (gpg_error GPG_ERR_MAC_ALGO, None, fresh_memory) \<and>
   resolves sample_list 108 4 \<and> ops (sample_list ! 4) = Some failing_ops \<and>
   complete_ops failing_ops \<and>
   fst (gcry_mac_open sample_list fresh_memory 108 1 None) = gpg_error GPG_ERR_INV_OP \<and>
   fst (gcry_mac_open sample_list fresh_memory 108 1 None) \<noteq> 0 \<and>
   fst (snd (gcry_mac_open sample_list fresh_memory 108 1 None)) = None \<and>
   owner (snd (snd (gcry_mac_open sample_list fresh_memory 108 1 None))) 20 = None \<and>
   trace (snd (snd (gcry_mac_open sample_list fresh_memory 108 1 None)))
     = [Alloc Secure 20, Called Open 20, Freed 20]"
proof -
  have f2: "(2 :: 32 word) AND NOT GCRY_MAC_FLAG_SECURE \<noteq> 0"
    by (simp add: GCRY_MAC_FLAG_SECURE_def)
  have f1: "(1 :: 32 word) AND NOT GCRY_MAC_FLAG_SECURE = 0"
    by (simp add: GCRY_MAC_FLAG_SECURE_def)
  have s1: "((1 :: 32 word) AND GCRY_MAC_FLAG_SECURE \<noteq> 0) = True"
    by (simp add: GCRY_MAC_FLAG_SECURE_def)
  have d: "flags_disabled (sample_list ! 1)" by (simp add: sample_list_def)
  have u: "(999 :: int) \<notin> algo ` set sample_list" by (simp add: sample_list_def)
  have o: "ops (sample_list ! 4) = Some failing_ops" "\<not> flags_disabled (sample_list ! 4)"
    by (simp_all add: sample_list_def)
  have fo: "ops_open failing_ops = Some (\<lambda>h. (GPG_ERR_INV_OP, h))"
    by (simp add: failing_ops_def)
  have rm: "room fresh_memory (pool_of True) = 20 # []"
    by (simp add: fresh_memory_def pool_of_def)
  have tr: "trace fresh_memory = []" by (simp add: fresh_memory_def)
  note t = gcry_mac_open_error_contract
  note tA = t [where flags = 2 and ml = sample_list and m = fresh_memory and a = 101 and ctx = None,
      THEN conjunct1, THEN mp]
  note tB = t [THEN conjunct2, THEN conjunct1, THEN mp]
  note tC = t [where flags = 1 and ml = sample_list and m = fresh_memory and a = 108 and ctx = None
      and i = 4 and t = failing_ops and f = "\<lambda>h. (GPG_ERR_INV_OP, h)" and h = 20 and rest = "[]",
      THEN conjunct2, THEN conjunct2, THEN conjunct1, THEN mp]
  have a: "gcry_mac_open sample_list fresh_memory 101 2 None
     = (gpg_error GPG_ERR_INV_ARG, None, fresh_memory)"
    using f2 by (rule tA)
  have b: "gcry_mac_open sample_list fresh_memory 105 1 None
     = (gpg_error GPG_ERR_MAC_ALGO, None, fresh_memory)"
    by (rule tB) (use f1 sample_resolves(2) d in blast)
  have c: "gcry_mac_open sample_list fresh_memory 999 1 None
     = (gpg_error GPG_ERR_MAC_ALGO, None, fresh_memory)"
    by (rule tB) (use f1 u in blast)
  have n2: "ops (sample_list ! 2) = None" by (simp add: sample_list_def)
  have c2: "gcry_mac_open sample_list fresh_memory 106 1 None
     = (gpg_error GPG_ERR_MAC_ALGO, None, fresh_memory)"
    by (rule tB) (use f1 sample_resolves(3) n2 in blast)
  have n5: "ops (sample_list ! 5) = Some partial_ops" by (simp add: sample_list_def)
  have p5: "\<not> complete_ops partial_ops" by (simp add: complete_ops_def partial_ops_def)
  have c5: "gcry_mac_open sample_list fresh_memory 109 1 None
     = (gpg_error GPG_ERR_MAC_ALGO, None, fresh_memory)"
    by (rule tB) (use f1 sample_resolves(6) n5 p5 in blast)
  have z: "fst ((\<lambda>h. (GPG_ERR_INV_OP, h))
             (zero_handle\<lparr>hd_magic := magic_of (pool_of ((1 :: 32 word) AND GCRY_MAC_FLAG_SECURE \<noteq> 0)),
                hd_spec := Some 4, hd_algo := 108, hd_gcry_ctx := None\<rparr> :: nat gcry_mac_handle)) \<noteq> 0"
    using err_codes_distinct(5) by simp
  have rm1: "room fresh_memory (pool_of ((1 :: 32 word) AND GCRY_MAC_FLAG_SECURE \<noteq> 0)) = 20 # []"
    using rm by (simp only: s1)
  have e: "gcry_mac_open sample_list fresh_memory 108 1 None =
     (gpg_error GPG_ERR_INV_OP, None,
      fresh_memory\<lparr>cells := (cells fresh_memory)
              (20 := zero_handle\<lparr>hd_magic := magic_of (pool_of True),
                          hd_spec := Some 4, hd_algo := 108, hd_gcry_ctx := None\<rparr>),
           owner := (owner fresh_memory)(20 := None),
           room := (room fresh_memory)(pool_of True := []),
           trace := trace fresh_memory @ [Alloc (pool_of True) 20, Called Open 20, Freed 20]\<rparr>)"
    using tC [OF conjI [OF f1 conjI [OF sample_resolves(5) conjI [OF o(2) conjI [OF o(1)
          conjI [OF sample_complete(3) conjI [OF fo conjI [OF rm1 z]]]]]]]]
    by (simp add: s1)
  have nz: "gpg_error GPG_ERR_INV_OP \<noteq> 0"
    using err_codes_distinct(5) by (simp add: gpg_error_zero_iff)
  from f2 f1 sample_resolves(2,3,5,6) d u o(1) sample_complete(3) a b c n2 c2 n5 p5 c5 nz
  show ?thesis by (simp add: e tr pool_of_def)
qed



section \<open>Closing a handle\<close>

lemma mac_close_eq:
  assumes "hd_ops ml m h = Some t"
  shows "mac_close ml m h =
           Some (m\<lparr>cells := (cells m)(h := zero_handle),
                   owner := (owner m)(h := None),
                   trace := trace m @ (if ops_close t = None then [] else [Called Close h])
                              @ [Wiped h, Freed h]\<rparr>)"
  using assms
  by (auto simp: mac_close_def call_hd_def wipememory_def gcry_free_def Let_def
      split: option.splits)

text \<open>
  Claim C7.  \<open>gcry_mac_close\<close> on a live handle whose descriptor has a capability
  table calls the descriptor's close callback exactly when there is one, then
  wipes the whole block, then releases it: these are the calls it adds to the
  trace, in this order.  Afterwards the block is all zero and no longer live, and
  no other block has changed.  The function returns the memory only; there is no
  error value.
\<close>

theorem close_callback_wipe_release:
  assumes "hd_ops ml m h = Some t"
  shows "\<exists>m'. gcry_mac_close ml m h = Some m' \<and>
           trace m' = trace m @ (if ops_close t = None then [] else [Called Close h])
                        @ [Wiped h, Freed h] \<and>
           cells m' h = zero_handle \<and> owner m' h = None \<and>
           (\<forall>x. x \<noteq> h \<longrightarrow> cells m' x = cells m x \<and> owner m' x = owner m x) \<and>
           room m' = room m"
  by (simp add: gcry_mac_close_def mac_close_eq [OF assms])

lemma open_sample_107:
  "gcry_mac_open sample_list fresh_memory 107 1 (Some 5) =
     (0, Some 20,
      \<lparr>cells = (\<lambda>a. zero_handle)
         (20 := \<lparr>hd_magic = CTX_MAGIC_SECURE, hd_spec = Some 3, hd_algo = 107,
                hd_gcry_ctx = Some 5, hd_u = 1\<rparr>),
       owner = (\<lambda>a. None)(20 := Some Secure),
       room = (\<lambda>p. case p of Normal \<Rightarrow> [10, 11] | Secure \<Rightarrow> [20])(Secure := []),
       trace = [Alloc Secure 20, Called Open 20]\<rparr>)"
  by (simp add: gcry_mac_open_def mac_open_def spec_from_algo_def sample_list_def
      counter_ops_def closing_ops_def fresh_memory_def gcry_calloc_secure_def calloc_from_def
      call_hd_def zero_handle_def GCRY_MAC_FLAG_SECURE_def gpg_error_def gpg_err_make_def
      GPG_ERR_NO_ERROR_def numeral_3_eq_3)

lemma opened_secure_memory_eq:
  "opened_secure_memory =
      \<lparr>cells = (\<lambda>a. zero_handle)
         (20 := \<lparr>hd_magic = CTX_MAGIC_SECURE, hd_spec = Some 3, hd_algo = 107,
                hd_gcry_ctx = Some 5, hd_u = 1\<rparr>),
       owner = (\<lambda>a. None)(20 := Some Secure),
       room = (\<lambda>p. case p of Normal \<Rightarrow> [10, 11] | Secure \<Rightarrow> [20])(Secure := []),
       trace = [Alloc Secure 20, Called Open 20]\<rparr>"
  by (simp add: opened_secure_memory_def open_sample_107)

lemma hd_ops_opened_secure: "hd_ops sample_list opened_secure_memory 20 = Some closing_ops"
  by (simp add: hd_ops_def opened_secure_memory_eq sample_list_def)

theorem close_callback_wipe_release_witness:
  "hd_ops sample_list opened_secure_memory 20 = Some closing_ops \<and>
   ops_close closing_ops \<noteq> None \<and>
   (\<exists>m'. gcry_mac_close sample_list opened_secure_memory 20 = Some m' \<and>
      trace m' = [Alloc Secure 20, Called Open 20, Called Close 20, Wiped 20, Freed 20] \<and>
      cells m' 20 = zero_handle \<and> owner m' 20 = None) \<and>
   hd_ops sample_list opened_memory 10 = Some counter_ops \<and>
   ops_close counter_ops = None \<and>
   (\<exists>m'. gcry_mac_close sample_list opened_memory 10 = Some m' \<and>
      trace m' = [Alloc Normal 10, Called Open 10, Wiped 10, Freed 10] \<and>
      cells m' 10 = zero_handle \<and> owner m' 10 = None)"
proof -
  have c1: "ops_close closing_ops \<noteq> None" by (simp add: closing_ops_def counter_ops_def)
  have c2: "ops_close counter_ops = None" by (simp add: counter_ops_def)
  have t1: "trace opened_secure_memory = [Alloc Secure 20, Called Open 20]"
    by (simp add: opened_secure_memory_eq)
  have t2: "trace opened_memory = [Alloc Normal 10, Called Open 10]"
    by (simp add: opened_memory_eq)
  from close_callback_wipe_release [OF hd_ops_opened_secure] c1 t1
  have a: "\<exists>m'. gcry_mac_close sample_list opened_secure_memory 20 = Some m' \<and>
      trace m' = [Alloc Secure 20, Called Open 20, Called Close 20, Wiped 20, Freed 20] \<and>
      cells m' 20 = zero_handle \<and> owner m' 20 = None"
    by auto
  from close_callback_wipe_release [OF hd_ops_opened] c2 t2
  have b: "\<exists>m'. gcry_mac_close sample_list opened_memory 10 = Some m' \<and>
      trace m' = [Alloc Normal 10, Called Open 10, Wiped 10, Freed 10] \<and>
      cells m' 10 = zero_handle \<and> owner m' 10 = None"
    by auto
  from hd_ops_opened_secure c1 a hd_ops_opened c2 b show ?thesis by (intro conjI)
qed



section \<open>Invariants of live handles\<close>

lemma hd_ops_SomeD:
  assumes "hd_ops ml m h = Some t"
  shows "\<exists>p i. owner m h = Some p \<and> hd_spec (cells m h) = Some i \<and> i < length ml \<and>
               ops (ml ! i) = Some t"
  using assms by (auto simp: hd_ops_def split: option.splits if_splits)

lemma hd_ops_keeps:
  assumes "registry_keeps_binding ml" and "hd_ops ml m h = Some t"
  shows "callbacks_keep_binding t"
proof -
  from hd_ops_SomeD [OF assms(2)] obtain i where "i < length ml" "ops (ml ! i) = Some t"
    by blast
  with assms(1) show ?thesis
    unfolding registry_keeps_binding_def by (meson nth_mem)
qed

lemma same_binding_refl: "same_binding m m"
  by (simp add: same_binding_def)

lemma same_binding_update:
  "keeps_binding (cells m h) h' \<Longrightarrow>
     same_binding m (m\<lparr>cells := (cells m)(h := h'), trace := tr\<rparr>)"
  by (simp add: same_binding_def keeps_binding_def)

lemma same_binding_call_hd:
  assumes "\<And>x. keeps_binding x (snd (f x))" and "call_hd cb h f m = (e, m')"
  shows "same_binding m m'"
proof -
  from assms(2) have "m' = m\<lparr>cells := (cells m)(h := snd (f (cells m h))),
                             trace := trace m @ [Called cb h]\<rparr>"
    by (auto simp: call_hd_def split: prod.splits)
  with same_binding_update [OF assms(1)] show ?thesis by simp
qed

lemma mac_setkey_same_binding:
  assumes "registry_keeps_binding ml" and "mac_setkey ml m h key keylen = Some (e, m')"
  shows "same_binding m m'"
proof -
  from assms(2) obtain t where t: "hd_ops ml m h = Some t"
    by (auto simp: mac_setkey_def split: option.splits)
  from hd_ops_keeps [OF assms(1) t]
  have k: "\<And>f x. ops_setkey t = Some f \<Longrightarrow> keeps_binding x (snd (f x key keylen))"
    by (simp add: callbacks_keep_binding_def)
  from assms(2) t show ?thesis
    by (auto simp: mac_setkey_def same_binding_refl split: option.splits if_splits
        intro: same_binding_call_hd [OF k])
qed

lemma mac_setiv_same_binding:
  assumes "registry_keeps_binding ml" and "mac_setiv ml m h iv ivlen = Some (e, m')"
  shows "same_binding m m'"
proof -
  from assms(2) obtain t where t: "hd_ops ml m h = Some t"
    by (auto simp: mac_setiv_def split: option.splits)
  from hd_ops_keeps [OF assms(1) t]
  have k: "\<And>f x. ops_setiv t = Some f \<Longrightarrow> keeps_binding x (snd (f x iv ivlen))"
    by (simp add: callbacks_keep_binding_def)
  from assms(2) t show ?thesis
    by (auto simp: mac_setiv_def same_binding_refl split: option.splits if_splits
        intro: same_binding_call_hd [OF k])
qed

lemma mac_write_same_binding:
  assumes "registry_keeps_binding ml" and "mac_write ml m h inbuf inlen = Some (e, m')"
  shows "same_binding m m'"
proof -
  from assms(2) obtain t where t: "hd_ops ml m h = Some t"
    by (auto simp: mac_write_def split: option.splits)
  from hd_ops_keeps [OF assms(1) t]
  have k: "\<And>f x. ops_write t = Some f \<Longrightarrow> keeps_binding x (snd (f x inbuf inlen))"
    by (simp add: callbacks_keep_binding_def)
  from assms(2) t show ?thesis
    by (auto simp: mac_write_def same_binding_refl split: option.splits if_splits
        intro: same_binding_call_hd [OF k])
qed

lemma mac_verify_same_binding:
  assumes "registry_keeps_binding ml" and "mac_verify ml m h buf buflen = Some (e, m')"
  shows "same_binding m m'"
proof (cases "buf = None \<or> buflen = 0")
  case True
  with assms(2) show ?thesis
    by (auto simp: mac_verify_def same_binding_refl split: option.splits)
next
  case False
  then obtain b where b: "buf = Some b" "buflen \<noteq> 0" by auto
  with assms(2) obtain t where t: "hd_ops ml m h = Some t"
    by (auto simp: mac_verify_def split: option.splits)
  from hd_ops_keeps [OF assms(1) t]
  have k: "\<And>f x. ops_verify t = Some f \<Longrightarrow> keeps_binding x (snd (f x b buflen))"
    by (simp add: callbacks_keep_binding_def)
  from assms(2) t b show ?thesis
    by (auto simp: mac_verify_def same_binding_refl split: option.splits if_splits
        intro: same_binding_call_hd [OF k])
qed

lemma mac_reset_same_binding:
  assumes "registry_keeps_binding ml" and "mac_reset ml m h = Some (e, m')"
  shows "same_binding m m'"
proof -
  from assms(2) obtain t where t: "hd_ops ml m h = Some t"
    by (auto simp: mac_reset_def split: option.splits)
  from hd_ops_keeps [OF assms(1) t]
  have k: "\<And>f x. ops_reset t = Some f \<Longrightarrow> keeps_binding x (snd (f x))"
    by (simp add: callbacks_keep_binding_def)
  from assms(2) t show ?thesis
    by (auto simp: mac_reset_def same_binding_refl split: option.splits if_splits
        intro: same_binding_call_hd [OF k])
qed

lemma mac_read_same_binding:
  assumes "registry_keeps_binding ml"
    and "mac_read ml m h outbuf outlen = Some (e, m', outbuf', outlen')"
  shows "same_binding m m'"
proof (cases "outbuf = None \<or> outlen = None \<or> outlen = Some 0")
  case True
  with assms(2) show ?thesis
    by (auto simp: mac_read_def same_binding_refl split: option.splits)
next
  case False
  then obtain b n where b: "outbuf = Some b" "outlen = Some n" "n \<noteq> 0" by auto
  with assms(2) obtain t where t: "hd_ops ml m h = Some t"
    by (auto simp: mac_read_def split: option.splits)
  from hd_ops_keeps [OF assms(1) t]
  have k: "\<And>f x. ops_read t = Some f \<Longrightarrow> keeps_binding x (fst (snd (f x b n)))"
    by (simp add: callbacks_keep_binding_def)
  show ?thesis
  proof (cases "ops_read t")
    case None
    with assms(2) t b show ?thesis by (simp add: mac_read_def same_binding_refl)
  next
    case (Some f)
    obtain e1 h1 b1 n1 where r: "f (cells m h) b n = (e1, h1, b1, n1)"
      by (metis prod_cases4)
    from k [OF Some, of "cells m h"] r have "keeps_binding (cells m h) h1" by simp
    from same_binding_update [OF this] assms(2) t b Some r show ?thesis
      by (auto simp: mac_read_def)
  qed
qed

lemma same_binding_all_bound:
  "same_binding m m' \<Longrightarrow> all_bound ml m \<Longrightarrow> all_bound ml m'"
  by (simp add: same_binding_def all_bound_def bound_handle_def)

lemma same_binding_sane: "same_binding m m' \<Longrightarrow> sane m \<Longrightarrow> sane m'"
  by (simp add: same_binding_def sane_def)

lemma same_binding_stable:
  "same_binding m m' \<Longrightarrow>
     owner m' h = owner m h \<and> hd_spec (cells m' h) = hd_spec (cells m h) \<and>
     hd_magic (cells m' h) = hd_magic (cells m h)"
  by (simp add: same_binding_def)

text \<open>What \<open>gcry_mac_open\<close> does to memory.\<close>

lemma gcry_mac_open_memory:
  "fst (snd (gcry_mac_open ml m a flags ctx)) = None \<and>
   snd (snd (gcry_mac_open ml m a flags ctx)) = m \<or>
   (\<exists>i t f h rest.
      resolves ml a i \<and> \<not> flags_disabled (ml ! i) \<and> ops (ml ! i) = Some t \<and>
      complete_ops t \<and> ops_open t = Some f \<and>
      room m (pool_of (flags AND GCRY_MAC_FLAG_SECURE \<noteq> 0)) = h # rest \<and>
      gcry_mac_open ml m a flags ctx =
        (gpg_error (fst (f (zero_handle\<lparr>hd_magic := magic_of (pool_of (flags AND GCRY_MAC_FLAG_SECURE \<noteq> 0)),
                          hd_spec := Some i, hd_algo := a, hd_gcry_ctx := ctx\<rparr>))),
         (if fst (f (zero_handle\<lparr>hd_magic := magic_of (pool_of (flags AND GCRY_MAC_FLAG_SECURE \<noteq> 0)),
                          hd_spec := Some i, hd_algo := a, hd_gcry_ctx := ctx\<rparr>)) \<noteq> 0
          then None else Some h),
         m\<lparr>cells := (cells m)
              (h := snd (f (zero_handle\<lparr>hd_magic := magic_of (pool_of (flags AND GCRY_MAC_FLAG_SECURE \<noteq> 0)),
                          hd_spec := Some i, hd_algo := a, hd_gcry_ctx := ctx\<rparr>))),
           owner := (owner m)
              (h := (if fst (f (zero_handle\<lparr>hd_magic := magic_of (pool_of (flags AND GCRY_MAC_FLAG_SECURE \<noteq> 0)),
                          hd_spec := Some i, hd_algo := a, hd_gcry_ctx := ctx\<rparr>)) \<noteq> 0
                     then None else Some (pool_of (flags AND GCRY_MAC_FLAG_SECURE \<noteq> 0)))),
           room := (room m)(pool_of (flags AND GCRY_MAC_FLAG_SECURE \<noteq> 0) := rest),
           trace := trace m @
              (if fst (f (zero_handle\<lparr>hd_magic := magic_of (pool_of (flags AND GCRY_MAC_FLAG_SECURE \<noteq> 0)),
                          hd_spec := Some i, hd_algo := a, hd_gcry_ctx := ctx\<rparr>)) \<noteq> 0
               then [Alloc (pool_of (flags AND GCRY_MAC_FLAG_SECURE \<noteq> 0)) h, Called Open h, Freed h]
               else [Alloc (pool_of (flags AND GCRY_MAC_FLAG_SECURE \<noteq> 0)) h, Called Open h])\<rparr>))"
  (is "?same \<or> ?alloc")
proof (cases "flags AND NOT GCRY_MAC_FLAG_SECURE = 0")
  case False
  then show ?thesis by (simp add: gcry_mac_open_bad_flags)
next
  case flags: True
  let ?sec = "flags AND GCRY_MAC_FLAG_SECURE \<noteq> 0"
  show ?thesis
  proof (cases "spec_from_algo ml a")
    case None
    then have "a \<notin> algo ` set ml" by (simp add: spec_from_algo_None)
    then show ?thesis by (simp add: gcry_mac_open_unusable [OF flags])
  next
    case (Some i)
    then have r: "resolves ml a i" by (simp add: resolves_iff)
    show ?thesis
    proof (cases "flags_disabled (ml ! i) \<or> ops (ml ! i) = None \<or>
         (\<exists>t. ops (ml ! i) = Some t \<and> \<not> complete_ops t)")
      case True
      with r have "gcry_mac_open ml m a flags ctx = (gpg_error GPG_ERR_MAC_ALGO, None, m)"
        by (intro gcry_mac_open_unusable [OF flags]) blast
      then show ?thesis by simp
    next
      case False
      then obtain t where t: "\<not> flags_disabled (ml ! i)" "ops (ml ! i) = Some t" "complete_ops t"
        by auto
      from t(3) obtain f where f: "ops_open t = Some f" by (auto simp: complete_ops_def)
      show ?thesis
      proof (cases "room m (pool_of ?sec)")
        case Nil
        from mac_open_nomem [OF r t Nil] have ?same
          by (simp add: gcry_mac_open_good_flags [OF flags])
        then show ?thesis ..
      next
        case (Cons h rest)
        have "gcry_mac_open ml m a flags ctx =
        (gpg_error (fst (f (zero_handle\<lparr>hd_magic := magic_of (pool_of (flags AND GCRY_MAC_FLAG_SECURE \<noteq> 0)),
                          hd_spec := Some i, hd_algo := a, hd_gcry_ctx := ctx\<rparr>))),
         (if fst (f (zero_handle\<lparr>hd_magic := magic_of (pool_of (flags AND GCRY_MAC_FLAG_SECURE \<noteq> 0)),
                          hd_spec := Some i, hd_algo := a, hd_gcry_ctx := ctx\<rparr>)) \<noteq> 0
          then None else Some h),
         m\<lparr>cells := (cells m)
              (h := snd (f (zero_handle\<lparr>hd_magic := magic_of (pool_of (flags AND GCRY_MAC_FLAG_SECURE \<noteq> 0)),
                          hd_spec := Some i, hd_algo := a, hd_gcry_ctx := ctx\<rparr>))),
           owner := (owner m)
              (h := (if fst (f (zero_handle\<lparr>hd_magic := magic_of (pool_of (flags AND GCRY_MAC_FLAG_SECURE \<noteq> 0)),
                          hd_spec := Some i, hd_algo := a, hd_gcry_ctx := ctx\<rparr>)) \<noteq> 0
                     then None else Some (pool_of (flags AND GCRY_MAC_FLAG_SECURE \<noteq> 0)))),
           room := (room m)(pool_of (flags AND GCRY_MAC_FLAG_SECURE \<noteq> 0) := rest),
           trace := trace m @
              (if fst (f (zero_handle\<lparr>hd_magic := magic_of (pool_of (flags AND GCRY_MAC_FLAG_SECURE \<noteq> 0)),
                          hd_spec := Some i, hd_algo := a, hd_gcry_ctx := ctx\<rparr>)) \<noteq> 0
               then [Alloc (pool_of (flags AND GCRY_MAC_FLAG_SECURE \<noteq> 0)) h, Called Open h, Freed h]
               else [Alloc (pool_of (flags AND GCRY_MAC_FLAG_SECURE \<noteq> 0)) h, Called Open h])\<rparr>)"
          by (simp add: gcry_mac_open_good_flags [OF flags]
              mac_open_allocated [OF r t Cons f] Let_def gpg_error_def gpg_err_make_def
              GPG_ERR_NO_ERROR_def)
        with r t f Cons have ?alloc by blast
        then show ?thesis ..
      qed
    qed
  qed
qed

lemma gcry_mac_open_step:
  assumes keep: "registry_keeps_binding ml"
    and run: "gcry_mac_open ml m a flags ctx = (e, slot, m')"
  shows "m' = m \<or>
         (\<exists>h rest p i t hv.
            p = pool_of (flags AND GCRY_MAC_FLAG_SECURE \<noteq> 0) \<and> room m p = h # rest \<and>
            i < length ml \<and> ops (ml ! i) = Some t \<and> complete_ops t \<and>
            hd_magic hv = magic_of p \<and> hd_spec hv = Some i \<and>
            cells m' = (cells m)(h := hv) \<and> room m' = (room m)(p := rest) \<and>
            (owner m' = (owner m)(h := None) \<and> slot = None \<or>
             owner m' = (owner m)(h := Some p) \<and> slot = Some h \<and> e = 0))"
proof -
  let ?p = "pool_of (flags AND GCRY_MAC_FLAG_SECURE \<noteq> 0)"
  from gcry_mac_open_memory [of ml m a flags ctx]
  show ?thesis
  proof
    assume "fst (snd (gcry_mac_open ml m a flags ctx)) = None \<and>
      snd (snd (gcry_mac_open ml m a flags ctx)) = m"
    with run show ?thesis by simp
  next
    assume "\<exists>i t f h rest.
      resolves ml a i \<and> \<not> flags_disabled (ml ! i) \<and> ops (ml ! i) = Some t \<and>
      complete_ops t \<and> ops_open t = Some f \<and> room m ?p = h # rest \<and>
      gcry_mac_open ml m a flags ctx =
        (gpg_error (fst (f (zero_handle\<lparr>hd_magic := magic_of ?p,
                          hd_spec := Some i, hd_algo := a, hd_gcry_ctx := ctx\<rparr>))),
         (if fst (f (zero_handle\<lparr>hd_magic := magic_of ?p,
                          hd_spec := Some i, hd_algo := a, hd_gcry_ctx := ctx\<rparr>)) \<noteq> 0
          then None else Some h),
         m\<lparr>cells := (cells m)
              (h := snd (f (zero_handle\<lparr>hd_magic := magic_of ?p,
                          hd_spec := Some i, hd_algo := a, hd_gcry_ctx := ctx\<rparr>))),
           owner := (owner m)
              (h := (if fst (f (zero_handle\<lparr>hd_magic := magic_of ?p,
                          hd_spec := Some i, hd_algo := a, hd_gcry_ctx := ctx\<rparr>)) \<noteq> 0
                     then None else Some ?p)),
           room := (room m)(?p := rest),
           trace := trace m @
              (if fst (f (zero_handle\<lparr>hd_magic := magic_of ?p,
                          hd_spec := Some i, hd_algo := a, hd_gcry_ctx := ctx\<rparr>)) \<noteq> 0
               then [Alloc ?p h, Called Open h, Freed h]
               else [Alloc ?p h, Called Open h])\<rparr>)"
    then obtain i t f h rest where
      r: "resolves ml a i" and t: "ops (ml ! i) = Some t" "complete_ops t"
      and f: "ops_open t = Some f" and room: "room m ?p = h # rest"
      and eq: "gcry_mac_open ml m a flags ctx =
        (gpg_error (fst (f (zero_handle\<lparr>hd_magic := magic_of ?p,
                          hd_spec := Some i, hd_algo := a, hd_gcry_ctx := ctx\<rparr>))),
         (if fst (f (zero_handle\<lparr>hd_magic := magic_of ?p,
                          hd_spec := Some i, hd_algo := a, hd_gcry_ctx := ctx\<rparr>)) \<noteq> 0
          then None else Some h),
         m\<lparr>cells := (cells m)
              (h := snd (f (zero_handle\<lparr>hd_magic := magic_of ?p,
                          hd_spec := Some i, hd_algo := a, hd_gcry_ctx := ctx\<rparr>))),
           owner := (owner m)
              (h := (if fst (f (zero_handle\<lparr>hd_magic := magic_of ?p,
                          hd_spec := Some i, hd_algo := a, hd_gcry_ctx := ctx\<rparr>)) \<noteq> 0
                     then None else Some ?p)),
           room := (room m)(?p := rest),
           trace := trace m @
              (if fst (f (zero_handle\<lparr>hd_magic := magic_of ?p,
                          hd_spec := Some i, hd_algo := a, hd_gcry_ctx := ctx\<rparr>)) \<noteq> 0
               then [Alloc ?p h, Called Open h, Freed h]
               else [Alloc ?p h, Called Open h])\<rparr>)"
      by blast
    let ?h0 = "zero_handle\<lparr>hd_magic := magic_of ?p,
                          hd_spec := Some i, hd_algo := a, hd_gcry_ctx := ctx\<rparr>"
    let ?hv = "snd (f ?h0)"
    from r have len: "i < length ml" by (simp add: resolves_def)
    with keep t(1) have "callbacks_keep_binding t"
      unfolding registry_keeps_binding_def by (meson nth_mem)
    with f have "keeps_binding ?h0 ?hv" by (simp add: callbacks_keep_binding_def)
    then have hv: "hd_magic ?hv = magic_of ?p" "hd_spec ?hv = Some i"
      by (simp_all add: keeps_binding_def)
    from eq [unfolded run] have
      c: "cells m' = (cells m)(h := ?hv)" and rm: "room m' = (room m)(?p := rest)"
      and ow: "owner m' = (owner m)(h := (if fst (f ?h0) \<noteq> 0 then None else Some ?p))"
      and sl: "slot = (if fst (f ?h0) \<noteq> 0 then None else Some h)"
      and e: "e = gpg_error (fst (f ?h0))"
      by simp_all
    from ow sl e have "owner m' = (owner m)(h := None) \<and> slot = None \<or>
             owner m' = (owner m)(h := Some ?p) \<and> slot = Some h \<and> e = 0"
      by (cases "fst (f ?h0) = 0") (simp_all add: gpg_error_zero_iff)
    with room len t hv c rm show ?thesis by blast
  qed
qed

lemma gcry_mac_open_all_bound:
  assumes keep: "registry_keeps_binding ml"
    and run: "gcry_mac_open ml m a flags ctx = (e, slot, m')"
    and inv: "all_bound ml m" "sane m"
  shows "all_bound ml m' \<and> sane m'"
proof -
  from gcry_mac_open_step [OF keep run] show ?thesis
  proof
    assume "m' = m"
    with inv show ?thesis by simp
  next
    assume "\<exists>h rest p i t hv.
            p = pool_of (flags AND GCRY_MAC_FLAG_SECURE \<noteq> 0) \<and> room m p = h # rest \<and>
            i < length ml \<and> ops (ml ! i) = Some t \<and> complete_ops t \<and>
            hd_magic hv = magic_of p \<and> hd_spec hv = Some i \<and>
            cells m' = (cells m)(h := hv) \<and> room m' = (room m)(p := rest) \<and>
            (owner m' = (owner m)(h := None) \<and> slot = None \<or>
             owner m' = (owner m)(h := Some p) \<and> slot = Some h \<and> e = 0)"
    then obtain h rest p i t hv where
      room: "room m p = h # rest" and i: "i < length ml" "ops (ml ! i) = Some t" "complete_ops t"
      and hv: "hd_magic hv = magic_of p" "hd_spec hv = Some i"
      and c: "cells m' = (cells m)(h := hv)" and rm: "room m' = (room m)(p := rest)"
      and ow: "owner m' = (owner m)(h := None) \<or> owner m' = (owner m)(h := Some p)"
      by blast
    have bound: "all_bound ml m'"
      unfolding all_bound_def
    proof (intro allI impI)
      fix x assume live: "owner m' x \<noteq> None"
      show "bound_handle ml m' x"
      proof (cases "x = h")
        case True
        with live ow have "owner m' x = Some p" by auto
        with True c hv i show ?thesis by (auto simp: bound_handle_def)
      next
        case False
        with live ow have "owner m x \<noteq> None" "owner m' x = owner m x" by auto
        with inv(1) have "bound_handle ml m x" by (simp add: all_bound_def)
        with False c \<open>owner m' x = owner m x\<close> show ?thesis by (simp add: bound_handle_def)
      qed
    qed
    from inv(2) room have d: "distinct (room m' Normal @ room m' Secure)"
      unfolding sane_def rm by (cases p) auto
    from inv(2) room have notin: "h \<notin> set (room m' Normal @ room m' Secure)"
      unfolding sane_def rm by (cases p) auto
    from room have sub: "set (room m' Normal @ room m' Secure) \<subseteq> set (room m Normal @ room m Secure)"
      unfolding rm by (cases p) auto
    have "\<forall>x \<in> set (room m' Normal @ room m' Secure). owner m' x = None"
    proof
      fix x assume x: "x \<in> set (room m' Normal @ room m' Secure)"
      with notin have "x \<noteq> h" by blast
      moreover from x sub inv(2) have "owner m x = None" unfolding sane_def by blast
      ultimately show "owner m' x = None" using ow by auto
    qed
    with d have "sane m'" by (simp add: sane_def)
    with bound show ?thesis ..
  qed
qed

lemma gcry_mac_open_stable:
  assumes keep: "registry_keeps_binding ml"
    and run: "gcry_mac_open ml m a flags ctx = (e, slot, m')"
    and inv: "sane m" and live: "owner m x = Some q"
  shows "owner m' x = Some q \<and> cells m' x = cells m x"
proof -
  from gcry_mac_open_step [OF keep run] show ?thesis
  proof
    assume "m' = m"
    with live show ?thesis by simp
  next
    assume "\<exists>h rest p i t hv.
            p = pool_of (flags AND GCRY_MAC_FLAG_SECURE \<noteq> 0) \<and> room m p = h # rest \<and>
            i < length ml \<and> ops (ml ! i) = Some t \<and> complete_ops t \<and>
            hd_magic hv = magic_of p \<and> hd_spec hv = Some i \<and>
            cells m' = (cells m)(h := hv) \<and> room m' = (room m)(p := rest) \<and>
            (owner m' = (owner m)(h := None) \<and> slot = None \<or>
             owner m' = (owner m)(h := Some p) \<and> slot = Some h \<and> e = 0)"
    then obtain h rest p hv where
      room: "room m p = h # rest"
      and c: "cells m' = (cells m)(h := hv)"
      and ow: "owner m' = (owner m)(h := None) \<or> owner m' = (owner m)(h := Some p)"
      by blast
    from room have "h \<in> set (room m Normal @ room m Secure)" by (cases p) auto
    with inv have "owner m h = None" unfolding sane_def by blast
    with live have "x \<noteq> h" by auto
    with c ow live show ?thesis by auto
  qed
qed

lemma perform_cases:
  assumes keep: "registry_keeps_binding ml" and step: "perform ml m r = Some m'"
  shows "(\<exists>a flags ctx. r = Req_open a flags ctx \<and>
            m' = snd (snd (gcry_mac_open ml m a flags ctx))) \<or>
         (\<exists>h tr. r = Req_close h \<and> owner m h \<noteq> None \<and>
            m' = m\<lparr>cells := (cells m)(h := zero_handle), owner := (owner m)(h := None),
                   trace := tr\<rparr>) \<or>
         same_binding m m'"
proof (cases r)
  case (Req_open a flags ctx)
  with step show ?thesis by simp
next
  case (Req_close h)
  with step obtain t where t: "hd_ops ml m h = Some t"
    by (auto simp: gcry_mac_close_def mac_close_def split: option.splits)
  from hd_ops_SomeD [OF t] have "owner m h \<noteq> None" by auto
  with step Req_close mac_close_eq [OF t] show ?thesis
    by (auto simp: gcry_mac_close_def)
next
  case (Req_setkey h key keylen)
  with step obtain e where "mac_setkey ml m h key keylen = Some (e, m')"
    by (auto simp: gcry_mac_setkey_def)
  from mac_setkey_same_binding [OF keep this] show ?thesis by simp
next
  case (Req_setiv h iv ivlen)
  with step obtain e where "mac_setiv ml m h iv ivlen = Some (e, m')"
    by (auto simp: gcry_mac_setiv_def)
  from mac_setiv_same_binding [OF keep this] show ?thesis by simp
next
  case (Req_write h inbuf inlen)
  with step obtain e where "mac_write ml m h inbuf inlen = Some (e, m')"
    by (auto simp: gcry_mac_write_def)
  from mac_write_same_binding [OF keep this] show ?thesis by simp
next
  case (Req_read h outbuf outlen)
  with step obtain e b n where "mac_read ml m h outbuf outlen = Some (e, m', b, n)"
    by (auto simp: gcry_mac_read_def)
  from mac_read_same_binding [OF keep this] show ?thesis by simp
next
  case (Req_verify h buf buflen)
  with step obtain e where "mac_verify ml m h buf buflen = Some (e, m')"
    by (auto simp: gcry_mac_verify_def)
  from mac_verify_same_binding [OF keep this] show ?thesis by simp
next
  case (Req_ctl h cmd buffer buflen)
  show ?thesis
  proof (cases "cmd = GCRYCTL_RESET")
    case True
    with step Req_ctl obtain e where "mac_reset ml m h = Some (e, m')"
      by (auto simp: gcry_mac_ctl_def)
    from mac_reset_same_binding [OF keep this] show ?thesis by simp
  next
    case False
    with step Req_ctl have "m' = m" by (simp add: gcry_mac_ctl_def)
    then show ?thesis by (simp add: same_binding_refl)
  qed
qed

lemma close_all_bound:
  assumes "all_bound ml m" and "sane m"
  shows "all_bound ml (m\<lparr>cells := (cells m)(h := zero_handle), owner := (owner m)(h := None),
                         trace := tr\<rparr>) \<and>
         sane (m\<lparr>cells := (cells m)(h := zero_handle), owner := (owner m)(h := None),
                 trace := tr\<rparr>)"
  using assms by (auto simp: all_bound_def bound_handle_def sane_def)

lemma perform_invariant:
  assumes keep: "registry_keeps_binding ml" and step: "perform ml m r = Some m'"
    and inv: "all_bound ml m" "sane m"
  shows "all_bound ml m' \<and> sane m'"
proof -
  from perform_cases [OF keep step] consider
    (op) a flags ctx where "m' = snd (snd (gcry_mac_open ml m a flags ctx))"
  | (cl) h tr where "m' = m\<lparr>cells := (cells m)(h := zero_handle),
                             owner := (owner m)(h := None), trace := tr\<rparr>"
  | (same) "same_binding m m'"
    by blast
  then show ?thesis
  proof cases
    case op
    then have "gcry_mac_open ml m a flags ctx =
      (fst (gcry_mac_open ml m a flags ctx), fst (snd (gcry_mac_open ml m a flags ctx)), m')"
      by simp
    from gcry_mac_open_all_bound [OF keep this inv] show ?thesis .
  next
    case cl
    with close_all_bound [OF inv] show ?thesis by simp
  next
    case same
    with inv show ?thesis
      using same_binding_all_bound same_binding_sane by blast
  qed
qed

lemma perform_stable:
  assumes keep: "registry_keeps_binding ml" and step: "perform ml m r = Some m'"
    and inv: "sane m" and live: "owner m x = Some q" and other: "r \<noteq> Req_close x"
  shows "owner m' x = Some q \<and> hd_spec (cells m' x) = hd_spec (cells m x) \<and>
         hd_magic (cells m' x) = hd_magic (cells m x)"
proof -
  from perform_cases [OF keep step] consider
    (op) a flags ctx where "m' = snd (snd (gcry_mac_open ml m a flags ctx))"
  | (cl) h tr where "r = Req_close h" "m' = m\<lparr>cells := (cells m)(h := zero_handle),
                             owner := (owner m)(h := None), trace := tr\<rparr>"
  | (same) "same_binding m m'"
    by blast
  then show ?thesis
  proof cases
    case op
    then have "gcry_mac_open ml m a flags ctx =
      (fst (gcry_mac_open ml m a flags ctx), fst (snd (gcry_mac_open ml m a flags ctx)), m')"
      by simp
    from gcry_mac_open_stable [OF keep this inv live] show ?thesis by simp
  next
    case cl
    with cl(1) other have "h \<noteq> x" by auto
    with cl live show ?thesis by simp
  next
    case same
    from same_binding_stable [OF same, of x] live show ?thesis by simp
  qed
qed

lemma pristine_invariant: "pristine m \<Longrightarrow> all_bound ml m \<and> sane m"
  by (simp add: pristine_def all_bound_def sane_def)

lemma run_invariant:
  assumes keep: "registry_keeps_binding ml"
  shows "run ml m rs = Some m' \<Longrightarrow> all_bound ml m \<Longrightarrow> sane m \<Longrightarrow> all_bound ml m' \<and> sane m'"
proof (induction rs arbitrary: m)
  case Nil
  then show ?case by simp
next
  case (Cons r rs)
  from Cons.prems(1) obtain m1 where
    m1: "perform ml m r = Some m1" "run ml m1 rs = Some m'"
    by (auto split: option.splits)
  from perform_invariant [OF keep m1(1) Cons.prems(2,3)]
  have "all_bound ml m1" "sane m1" by simp_all
  from Cons.IH [OF m1(2) this] show ?case .
qed

lemma run_stable:
  assumes keep: "registry_keeps_binding ml"
  shows "run ml m rs = Some m' \<Longrightarrow> all_bound ml m \<Longrightarrow> sane m \<Longrightarrow> owner m x = Some q \<Longrightarrow>
           Req_close x \<notin> set rs \<Longrightarrow>
           owner m' x = Some q \<and> hd_spec (cells m' x) = hd_spec (cells m x) \<and>
           hd_magic (cells m' x) = hd_magic (cells m x)"
proof (induction rs arbitrary: m)
  case Nil
  then show ?case by simp
next
  case (Cons r rs)
  from Cons.prems(1) obtain m1 where
    m1: "perform ml m r = Some m1" "run ml m1 rs = Some m'"
    by (auto split: option.splits)
  from Cons.prems(5) have ne: "r \<noteq> Req_close x" "Req_close x \<notin> set rs" by auto
  from perform_invariant [OF keep m1(1) Cons.prems(2,3)]
  have inv1: "all_bound ml m1" "sane m1" by simp_all
  from perform_stable [OF keep m1(1) Cons.prems(3,4) ne(1)]
  have st: "owner m1 x = Some q" "hd_spec (cells m1 x) = hd_spec (cells m x)"
    "hd_magic (cells m1 x) = hd_magic (cells m x)" by simp_all
  from Cons.IH [OF m1(2) inv1 st(1) ne(2)] st show ?case by simp
qed

lemma reachable_bound:
  assumes "registry_keeps_binding ml" and "pristine m0" and "run ml m0 rs = Some m"
    and "owner m h = Some q"
  shows "bound_handle ml m h"
proof -
  from pristine_invariant [OF assms(2)] have "all_bound ml m0" "sane m0" by simp_all
  from run_invariant [OF assms(1,3) this] have "all_bound ml m" by simp
  with assms(4) show ?thesis by (simp add: all_bound_def)
qed

lemma gcry_mac_open_success:
  assumes "gcry_mac_open ml m a flags ctx = (0, Some h, m')"
  shows "\<exists>i t f rest.
      resolves ml a i \<and> \<not> flags_disabled (ml ! i) \<and> ops (ml ! i) = Some t \<and>
      complete_ops t \<and> ops_open t = Some f \<and>
      room m (pool_of (flags AND GCRY_MAC_FLAG_SECURE \<noteq> 0)) = h # rest \<and>
      fst (f (zero_handle\<lparr>hd_magic := magic_of (pool_of (flags AND GCRY_MAC_FLAG_SECURE \<noteq> 0)),
                          hd_spec := Some i, hd_algo := a, hd_gcry_ctx := ctx\<rparr>)) = 0 \<and>
      m' = m\<lparr>cells := (cells m)
              (h := snd (f (zero_handle\<lparr>hd_magic := magic_of (pool_of (flags AND GCRY_MAC_FLAG_SECURE \<noteq> 0)),
                          hd_spec := Some i, hd_algo := a, hd_gcry_ctx := ctx\<rparr>))),
           owner := (owner m)(h := Some (pool_of (flags AND GCRY_MAC_FLAG_SECURE \<noteq> 0))),
           room := (room m)(pool_of (flags AND GCRY_MAC_FLAG_SECURE \<noteq> 0) := rest),
           trace := trace m @ [Alloc (pool_of (flags AND GCRY_MAC_FLAG_SECURE \<noteq> 0)) h,
                               Called Open h]\<rparr>"
proof -
  let ?p = "pool_of (flags AND GCRY_MAC_FLAG_SECURE \<noteq> 0)"
  from gcry_mac_open_memory [of ml m a flags ctx] assms
  obtain i t f h1 rest where
    r: "resolves ml a i" "\<not> flags_disabled (ml ! i)" "ops (ml ! i) = Some t" "complete_ops t"
      "ops_open t = Some f" "room m ?p = h1 # rest"
    and eq: "(0, Some h, m') =
        (gpg_error (fst (f (zero_handle\<lparr>hd_magic := magic_of ?p,
                          hd_spec := Some i, hd_algo := a, hd_gcry_ctx := ctx\<rparr>))),
         (if fst (f (zero_handle\<lparr>hd_magic := magic_of ?p,
                          hd_spec := Some i, hd_algo := a, hd_gcry_ctx := ctx\<rparr>)) \<noteq> 0
          then None else Some h1),
         m\<lparr>cells := (cells m)
              (h1 := snd (f (zero_handle\<lparr>hd_magic := magic_of ?p,
                          hd_spec := Some i, hd_algo := a, hd_gcry_ctx := ctx\<rparr>))),
           owner := (owner m)
              (h1 := (if fst (f (zero_handle\<lparr>hd_magic := magic_of ?p,
                          hd_spec := Some i, hd_algo := a, hd_gcry_ctx := ctx\<rparr>)) \<noteq> 0
                     then None else Some ?p)),
           room := (room m)(?p := rest),
           trace := trace m @
              (if fst (f (zero_handle\<lparr>hd_magic := magic_of ?p,
                          hd_spec := Some i, hd_algo := a, hd_gcry_ctx := ctx\<rparr>)) \<noteq> 0
               then [Alloc ?p h1, Called Open h1, Freed h1]
               else [Alloc ?p h1, Called Open h1])\<rparr>)"
    by auto
  let ?e = "fst (f (zero_handle\<lparr>hd_magic := magic_of ?p,
                          hd_spec := Some i, hd_algo := a, hd_gcry_ctx := ctx\<rparr>))"
  from eq have z: "?e = 0" by (simp add: gpg_error_zero_iff split: if_splits)
  with eq have "h1 = h" by simp
  with eq z r show ?thesis by auto
qed

lemma mac_read_forward:
  assumes "hd_ops ml m h = Some t" and "ops_read t = Some f" and "0 < n"
  shows "mac_read ml m h (Some b) (Some n) =
           Some (fst (f (cells m h) b n),
                 m\<lparr>cells := (cells m)(h := fst (snd (f (cells m h) b n))),
                   trace := trace m @ [Called Read h]\<rparr>,
                 Some (fst (snd (snd (f (cells m h) b n)))),
                 Some (snd (snd (snd (f (cells m h) b n)))))"
  using assms by (simp add: mac_read_def split: prod.splits)

lemma mac_verify_forward:
  assumes "hd_ops ml m h = Some t" and "ops_verify t = Some f" and "0 < n"
  shows "mac_verify ml m h (Some b) n =
           Some (fst (f (cells m h) b n),
                 m\<lparr>cells := (cells m)(h := snd (f (cells m h) b n)),
                   trace := trace m @ [Called Verify h]\<rparr>)"
  using assms by (simp add: mac_verify_def call_hd_def split: prod.splits)

lemma mac_reset_forward:
  assumes "hd_ops ml m h = Some t" and "ops_reset t = Some f"
  shows "mac_reset ml m h =
           Some (fst (f (cells m h)),
                 m\<lparr>cells := (cells m)(h := snd (f (cells m h))),
                   trace := trace m @ [Called Reset h]\<rparr>)"
  using assms by (simp add: mac_reset_def call_hd_def split: prod.splits)

lemma gcry_mac_ctl_reset:
  assumes "hd_ops ml m h = Some t" and "ops_reset t = Some f"
  shows "gcry_mac_ctl ml m h GCRYCTL_RESET buffer buflen =
           Some (gcry_error (fst (f (cells m h))),
                 m\<lparr>cells := (cells m)(h := snd (f (cells m h))),
                   trace := trace m @ [Called Reset h]\<rparr>)"
  by (simp add: gcry_mac_ctl_def mac_reset_forward [OF assms])

lemma bound_handle_ops:
  assumes "bound_handle ml m h"
  shows "\<exists>i t. hd_spec (cells m h) = Some i \<and> i < length ml \<and> ops (ml ! i) = Some t \<and>
               complete_ops t \<and> hd_ops ml m h = Some t"
  using assms by (auto simp: bound_handle_def hd_ops_def)


section \<open>Pool and tag of a handle\<close>

lemma magic_facts:
  "magic_of Secure = CTX_MAGIC_SECURE" "magic_of Normal = CTX_MAGIC_NORMAL"
  "CTX_MAGIC_SECURE \<noteq> CTX_MAGIC_NORMAL"
  by (simp_all add: magic_of_def CTX_MAGIC_SECURE_def CTX_MAGIC_NORMAL_def)

lemma pool_of_iff: "pool_of secure = Secure \<longleftrightarrow> secure"
  by (simp add: pool_of_def)

lemma open_allocation:
  assumes keep: "registry_keeps_binding ml"
    and ok: "gcry_mac_open ml m a flags ctx = (0, Some h, m')"
  shows "\<exists>i t f rest.
      resolves ml a i \<and> ops (ml ! i) = Some t \<and> ops_open t = Some f \<and>
      room m (pool_of (flags AND GCRY_MAC_FLAG_SECURE \<noteq> 0)) = h # rest \<and>
      room m' = (room m)(pool_of (flags AND GCRY_MAC_FLAG_SECURE \<noteq> 0) := rest) \<and>
      owner m' = (owner m)(h := Some (pool_of (flags AND GCRY_MAC_FLAG_SECURE \<noteq> 0))) \<and>
      trace m' = trace m @ [Alloc (pool_of (flags AND GCRY_MAC_FLAG_SECURE \<noteq> 0)) h,
                            Called Open h] \<and>
      cells m' h =
        snd (f (zero_handle\<lparr>hd_magic := magic_of (pool_of (flags AND GCRY_MAC_FLAG_SECURE \<noteq> 0)),
                            hd_spec := Some i, hd_algo := a, hd_gcry_ctx := ctx\<rparr>)) \<and>
      hd_magic (cells m' h) = magic_of (pool_of (flags AND GCRY_MAC_FLAG_SECURE \<noteq> 0)) \<and>
      hd_spec (cells m' h) = Some i"
proof -
  let ?p = "pool_of (flags AND GCRY_MAC_FLAG_SECURE \<noteq> 0)"
  from gcry_mac_open_success [OF ok] obtain i t f rest where
    r: "resolves ml a i" "ops (ml ! i) = Some t" "ops_open t = Some f" "room m ?p = h # rest"
    and m': "m' = m\<lparr>cells := (cells m)
              (h := snd (f (zero_handle\<lparr>hd_magic := magic_of ?p,
                          hd_spec := Some i, hd_algo := a, hd_gcry_ctx := ctx\<rparr>))),
           owner := (owner m)(h := Some ?p),
           room := (room m)(?p := rest),
           trace := trace m @ [Alloc ?p h, Called Open h]\<rparr>"
    by blast
  let ?h0 = "zero_handle\<lparr>hd_magic := magic_of ?p,
                          hd_spec := Some i, hd_algo := a, hd_gcry_ctx := ctx\<rparr>"
  from r(1) have "i < length ml" by (simp add: resolves_def)
  with keep r(2) have "callbacks_keep_binding t"
    unfolding registry_keeps_binding_def by (meson nth_mem)
  with r(3) have "keeps_binding ?h0 (snd (f ?h0))" by (simp add: callbacks_keep_binding_def)
  then have hv: "hd_magic (snd (f ?h0)) = magic_of ?p" "hd_spec (snd (f ?h0)) = Some i"
    by (simp_all add: keeps_binding_def)
  from m' have
    "room m' = (room m)(?p := rest)" "owner m' = (owner m)(h := Some ?p)"
    "trace m' = trace m @ [Alloc ?p h, Called Open h]" "cells m' h = snd (f ?h0)"
    by simp_all
  with r hv show ?thesis by auto
qed

lemma open_lifetime:
  assumes keep: "registry_keeps_binding ml"
    and start: "pristine m0" "run ml m0 rs = Some m"
    and ok: "gcry_mac_open ml m a flags ctx = (0, Some h, m')"
    and later: "run ml m' rs' = Some m''" "Req_close h \<notin> set rs'"
  shows "owner m'' h = Some (pool_of (flags AND GCRY_MAC_FLAG_SECURE \<noteq> 0)) \<and>
         hd_magic (cells m'' h) = magic_of (pool_of (flags AND GCRY_MAC_FLAG_SECURE \<noteq> 0)) \<and>
         hd_spec (cells m'' h) = hd_spec (cells m' h) \<and>
         bound_handle ml m'' h"
proof -
  let ?p = "pool_of (flags AND GCRY_MAC_FLAG_SECURE \<noteq> 0)"
  from pristine_invariant [OF start(1)] have "all_bound ml m0" "sane m0" by simp_all
  from run_invariant [OF keep start(2) this] have inv: "all_bound ml m" "sane m" by simp_all
  from gcry_mac_open_all_bound [OF keep ok inv] have inv': "all_bound ml m'" "sane m'"
    by simp_all
  from open_allocation [OF keep ok]
  have o: "owner m' h = Some ?p" "hd_magic (cells m' h) = magic_of ?p" by auto
  from run_stable [OF keep later(1) inv' o(1) later(2)] o(2)
  have st: "owner m'' h = Some ?p" "hd_magic (cells m'' h) = magic_of ?p"
    "hd_spec (cells m'' h) = hd_spec (cells m' h)" by simp_all
  from run_invariant [OF keep later(1) inv'] have "all_bound ml m''" by simp
  with st(1) have "bound_handle ml m'' h" by (simp add: all_bound_def)
  with st show ?thesis by simp
qed

text \<open>
  Claim C9.  Let no callback of the registry rewrite the \<open>magic\<close> and \<open>spec\<close>
  fields.  A successful \<open>gcry_mac_open\<close> takes the handle's block from the secure
  pool exactly when \<open>GCRY_MAC_FLAG_SECURE\<close> is set and from the normal pool
  otherwise; the block is all zero when the fields are stamped and the open
  callback runs on it; and the handle's \<open>magic\<close> is the sentinel of that pool,
  \<open>CTX_MAGIC_SECURE\<close> for the secure one, the two sentinels being different.
  From then on, whatever calls of the interface follow, the block stays owned by
  that pool and keeps that \<open>magic\<close> until the handle is closed.
\<close>

theorem secure_flag_fixes_pool_and_magic:
  assumes keep: "registry_keeps_binding ml"
  shows "(gcry_mac_open ml m a flags ctx = (0, Some h, m') \<longrightarrow>
           (\<exists>i t f rest.
              resolves ml a i \<and> ops (ml ! i) = Some t \<and> ops_open t = Some f \<and>
              room m (pool_of (flags AND GCRY_MAC_FLAG_SECURE \<noteq> 0)) = h # rest \<and>
              room m' = (room m)(pool_of (flags AND GCRY_MAC_FLAG_SECURE \<noteq> 0) := rest) \<and>
              owner m' = (owner m)(h := Some (pool_of (flags AND GCRY_MAC_FLAG_SECURE \<noteq> 0))) \<and>
              trace m' = trace m @ [Alloc (pool_of (flags AND GCRY_MAC_FLAG_SECURE \<noteq> 0)) h,
                                    Called Open h] \<and>
              cells m' h =
                snd (f (zero_handle\<lparr>hd_magic := magic_of (pool_of (flags AND GCRY_MAC_FLAG_SECURE \<noteq> 0)),
                                    hd_spec := Some i, hd_algo := a, hd_gcry_ctx := ctx\<rparr>)) \<and>
              hd_magic (cells m' h) = magic_of (pool_of (flags AND GCRY_MAC_FLAG_SECURE \<noteq> 0)) \<and>
              hd_spec (cells m' h) = Some i)) \<and>
         (pristine m0 \<and> run ml m0 rs = Some m \<and>
          gcry_mac_open ml m a flags ctx = (0, Some h, m') \<and>
          run ml m' rs' = Some m'' \<and> Req_close h \<notin> set rs' \<longrightarrow>
            owner m'' h = Some (pool_of (flags AND GCRY_MAC_FLAG_SECURE \<noteq> 0)) \<and>
            hd_magic (cells m'' h) = magic_of (pool_of (flags AND GCRY_MAC_FLAG_SECURE \<noteq> 0))) \<and>
         (pool_of (flags AND GCRY_MAC_FLAG_SECURE \<noteq> 0) = Secure
            \<longleftrightarrow> flags AND GCRY_MAC_FLAG_SECURE \<noteq> 0) \<and>
         magic_of Secure = CTX_MAGIC_SECURE \<and> magic_of Normal = CTX_MAGIC_NORMAL \<and>
         CTX_MAGIC_SECURE \<noteq> CTX_MAGIC_NORMAL"
proof (intro conjI impI)
  assume "gcry_mac_open ml m a flags ctx = (0, Some h, m')"
  from open_allocation [OF keep this]
  show "\<exists>i t f rest.
              resolves ml a i \<and> ops (ml ! i) = Some t \<and> ops_open t = Some f \<and>
              room m (pool_of (flags AND GCRY_MAC_FLAG_SECURE \<noteq> 0)) = h # rest \<and>
              room m' = (room m)(pool_of (flags AND GCRY_MAC_FLAG_SECURE \<noteq> 0) := rest) \<and>
              owner m' = (owner m)(h := Some (pool_of (flags AND GCRY_MAC_FLAG_SECURE \<noteq> 0))) \<and>
              trace m' = trace m @ [Alloc (pool_of (flags AND GCRY_MAC_FLAG_SECURE \<noteq> 0)) h,
                                    Called Open h] \<and>
              cells m' h =
                snd (f (zero_handle\<lparr>hd_magic := magic_of (pool_of (flags AND GCRY_MAC_FLAG_SECURE \<noteq> 0)),
                                    hd_spec := Some i, hd_algo := a, hd_gcry_ctx := ctx\<rparr>)) \<and>
              hd_magic (cells m' h) = magic_of (pool_of (flags AND GCRY_MAC_FLAG_SECURE \<noteq> 0)) \<and>
              hd_spec (cells m' h) = Some i" .
next
  assume a: "pristine m0 \<and> run ml m0 rs = Some m \<and>
          gcry_mac_open ml m a flags ctx = (0, Some h, m') \<and>
          run ml m' rs' = Some m'' \<and> Req_close h \<notin> set rs'"
  then have l: "owner m'' h = Some (pool_of (flags AND GCRY_MAC_FLAG_SECURE \<noteq> 0)) \<and>
         hd_magic (cells m'' h) = magic_of (pool_of (flags AND GCRY_MAC_FLAG_SECURE \<noteq> 0)) \<and>
         hd_spec (cells m'' h) = hd_spec (cells m' h) \<and>
         bound_handle ml m'' h"
    using open_lifetime [OF keep, of m0 rs m a flags ctx h m' rs' m''] by blast
  from l show "owner m'' h = Some (pool_of (flags AND GCRY_MAC_FLAG_SECURE \<noteq> 0))" by blast
  from l show "hd_magic (cells m'' h) = magic_of (pool_of (flags AND GCRY_MAC_FLAG_SECURE \<noteq> 0))"
    by blast
next
  show "(pool_of (flags AND GCRY_MAC_FLAG_SECURE \<noteq> 0) = Secure)
          = (flags AND GCRY_MAC_FLAG_SECURE \<noteq> 0)"
    by (rule pool_of_iff)
  show "magic_of Secure = CTX_MAGIC_SECURE" by (rule magic_facts)
  show "magic_of Normal = CTX_MAGIC_NORMAL" by (rule magic_facts)
  show "CTX_MAGIC_SECURE \<noteq> CTX_MAGIC_NORMAL" by (rule magic_facts)
qed

lemma sample_keeps_binding: "registry_keeps_binding sample_list"
  by (simp add: registry_keeps_binding_def sample_list_def callbacks_keep_binding_def
      keeps_binding_def counter_ops_def closing_ops_def failing_ops_def partial_ops_def)

lemma fresh_pristine: "pristine fresh_memory"
  by (simp add: pristine_def fresh_memory_def)

lemma open_secure_ok:
  "gcry_mac_open sample_list fresh_memory 107 1 (Some 5) = (0, Some 20, opened_secure_memory)"
  by (simp add: open_sample_107 opened_secure_memory_eq)

lemma run_after_secure:
  "run sample_list opened_secure_memory
     [Req_setkey 20 (Some [1, 2, 3]) 3, Req_ctl 20 GCRYCTL_RESET None 0] =
   Some (opened_secure_memory
          \<lparr>cells := (cells opened_secure_memory)
             (20 := \<lparr>hd_magic = CTX_MAGIC_SECURE, hd_spec = Some 3, hd_algo = 107,
                     hd_gcry_ctx = Some 5, hd_u = 1\<rparr>),
           trace := [Alloc Secure 20, Called Open 20, Called Setkey 20, Called Reset 20]\<rparr>)"
proof -
  have k: "ops_setkey closing_ops = Some (\<lambda>h key keylen. (0, h\<lparr>hd_u := hd_u h + keylen\<rparr>))"
    and z: "ops_reset closing_ops = Some (\<lambda>h. (0, h\<lparr>hd_u := 1\<rparr>))"
    by (simp_all add: closing_ops_def counter_ops_def)
  have c: "cells opened_secure_memory 20 =
             \<lparr>hd_magic = CTX_MAGIC_SECURE, hd_spec = Some 3, hd_algo = 107,
              hd_gcry_ctx = Some 5, hd_u = 1\<rparr>"
    and tr: "trace opened_secure_memory = [Alloc Secure 20, Called Open 20]"
    and ow: "owner opened_secure_memory 20 = Some Secure"
    by (simp_all add: opened_secure_memory_eq)
  have s1: "mac_setkey sample_list opened_secure_memory 20 (Some [1, 2, 3]) 3 =
     Some (0, opened_secure_memory
          \<lparr>cells := (cells opened_secure_memory)
             (20 := \<lparr>hd_magic = CTX_MAGIC_SECURE, hd_spec = Some 3, hd_algo = 107,
                     hd_gcry_ctx = Some 5, hd_u = 4\<rparr>),
           trace := [Alloc Secure 20, Called Open 20, Called Setkey 20]\<rparr>)"
    by (simp add: mac_setkey_forward [OF hd_ops_opened_secure k] c tr)
  let ?m1 = "opened_secure_memory
          \<lparr>cells := (cells opened_secure_memory)
             (20 := \<lparr>hd_magic = CTX_MAGIC_SECURE, hd_spec = Some 3, hd_algo = 107,
                     hd_gcry_ctx = Some 5, hd_u = 4\<rparr>),
           trace := [Alloc Secure 20, Called Open 20, Called Setkey 20]\<rparr>"
  have h1: "hd_ops sample_list ?m1 20 = Some closing_ops"
    by (simp add: hd_ops_def ow sample_list_def)
  have s2: "gcry_mac_ctl sample_list ?m1 20 GCRYCTL_RESET None 0 =
     Some (0, opened_secure_memory
          \<lparr>cells := (cells opened_secure_memory)
             (20 := \<lparr>hd_magic = CTX_MAGIC_SECURE, hd_spec = Some 3, hd_algo = 107,
                     hd_gcry_ctx = Some 5, hd_u = 1\<rparr>),
           trace := [Alloc Secure 20, Called Open 20, Called Setkey 20, Called Reset 20]\<rparr>)"
    by (simp add: gcry_mac_ctl_reset [OF h1 z] gcry_error_zero_iff)
  show ?thesis
    by (simp add: gcry_mac_setkey_def s1 s2 gpg_error_zero_iff)
qed

theorem secure_flag_fixes_pool_and_magic_witness:
  "registry_keeps_binding sample_list \<and> pristine fresh_memory \<and>
   run sample_list fresh_memory [] = Some fresh_memory \<and>
   gcry_mac_open sample_list fresh_memory 107 1 (Some 5) = (0, Some 20, opened_secure_memory) \<and>
   (1 :: 32 word) AND GCRY_MAC_FLAG_SECURE \<noteq> 0 \<and>
   room fresh_memory Secure = [20] \<and> room opened_secure_memory Secure = [] \<and>
   owner opened_secure_memory 20 = Some Secure \<and>
   hd_magic (cells opened_secure_memory 20) = CTX_MAGIC_SECURE \<and>
   Req_close 20 \<notin> set [Req_setkey 20 (Some [1, 2, 3]) 3, Req_ctl 20 GCRYCTL_RESET None 0] \<and>
   (\<exists>m''. run sample_list opened_secure_memory
             [Req_setkey 20 (Some [1, 2, 3]) 3, Req_ctl 20 GCRYCTL_RESET None 0] = Some m'' \<and>
          owner m'' 20 = Some Secure \<and> hd_magic (cells m'' 20) = CTX_MAGIC_SECURE)"
proof -
  have s: "(1 :: 32 word) AND GCRY_MAC_FLAG_SECURE \<noteq> 0"
    by (simp add: GCRY_MAC_FLAG_SECURE_def)
  have r0: "run sample_list fresh_memory [] = Some fresh_memory" by simp
  have nc: "Req_close 20 \<notin> set [Req_setkey 20 (Some [1, 2, 3]) 3, Req_ctl 20 GCRYCTL_RESET None 0]"
    by simp
  have rooms: "room fresh_memory Secure = [20]" "room opened_secure_memory Secure = []"
    by (simp_all add: fresh_memory_def opened_secure_memory_eq)
  note t = secure_flag_fixes_pool_and_magic [OF sample_keeps_binding,
      where m0 = fresh_memory and rs = "[]" and m = fresh_memory and a = 107 and flags = 1
        and ctx = "Some 5" and h = 20 and m' = opened_secure_memory
        and rs' = "[Req_setkey 20 (Some [1, 2, 3]) 3, Req_ctl 20 GCRYCTL_RESET None 0]"]
  from t [THEN conjunct1, THEN mp, OF open_secure_ok] s
  have a: "owner opened_secure_memory 20 = Some Secure"
    "hd_magic (cells opened_secure_memory 20) = CTX_MAGIC_SECURE"
    by (auto simp: pool_of_def magic_of_def)
  from t [THEN conjunct2, THEN conjunct1, THEN mp,
      OF conjI [OF fresh_pristine conjI [OF r0 conjI [OF open_secure_ok
            conjI [OF run_after_secure nc]]]]] s
  have b: "\<exists>m''. run sample_list opened_secure_memory
             [Req_setkey 20 (Some [1, 2, 3]) 3, Req_ctl 20 GCRYCTL_RESET None 0] = Some m'' \<and>
          owner m'' 20 = Some Secure \<and> hd_magic (cells m'' 20) = CTX_MAGIC_SECURE"
    using run_after_secure by (simp add: pool_of_def magic_of_def)
  from sample_keeps_binding fresh_pristine r0 open_secure_ok s rooms a nc b
  show ?thesis by (intro conjI)
qed


section \<open>Capabilities of opened handles\<close>

text \<open>
  Claim C10.  Let no callback of the registry rewrite the \<open>magic\<close> and \<open>spec\<close>
  fields.  A handle returned by a successful \<open>gcry_mac_open\<close> points to the
  descriptor its id resolved to, whose capability table has all six mandatory
  operations, and after any further calls of the interface that do not close it,
  it still points to that descriptor.  On such a handle \<open>mac_setkey\<close>,
  \<open>mac_write\<close>, \<open>mac_read\<close> and \<open>mac_verify\<close> never take the missing-capability
  branch: with valid arguments the result is the callback's.  \<open>mac_reset\<close> calls
  the descriptor's \<open>reset\<close>, and so does \<open>gcry_mac_ctl\<close> with \<open>GCRYCTL_RESET\<close>.
\<close>

theorem opened_handles_stay_complete:
  assumes keep: "registry_keeps_binding ml"
    and start: "pristine m0" "run ml m0 rs = Some m1"
    and ok: "gcry_mac_open ml m1 a flags ctx = (0, Some h, m2)"
    and later: "run ml m2 rs' = Some m" "Req_close h \<notin> set rs'"
  shows "\<exists>i t fk fw fr fv fz.
     resolves ml a i \<and> hd_spec (cells m2 h) = Some i \<and> hd_spec (cells m h) = Some i \<and>
     owner m h \<noteq> None \<and> ops (ml ! i) = Some t \<and> complete_ops t \<and>
     ops_setkey t = Some fk \<and> ops_write t = Some fw \<and> ops_read t = Some fr \<and>
     ops_verify t = Some fv \<and> ops_reset t = Some fz \<and>
     (\<forall>key keylen. mac_setkey ml m h key keylen =
        (if 0 < keylen \<and> key = None then Some (GPG_ERR_INV_ARG, m)
         else Some (fst (fk (cells m h) key keylen),
                    m\<lparr>cells := (cells m)(h := snd (fk (cells m h) key keylen)),
                      trace := trace m @ [Called Setkey h]\<rparr>))) \<and>
     (\<forall>inbuf inlen. mac_write ml m h inbuf inlen =
        (if 0 < inlen \<and> inbuf = None then Some (GPG_ERR_INV_ARG, m)
         else Some (fst (fw (cells m h) inbuf inlen),
                    m\<lparr>cells := (cells m)(h := snd (fw (cells m h) inbuf inlen)),
                      trace := trace m @ [Called Write h]\<rparr>))) \<and>
     (\<forall>b n. 0 < n \<longrightarrow> mac_read ml m h (Some b) (Some n) =
        Some (fst (fr (cells m h) b n),
              m\<lparr>cells := (cells m)(h := fst (snd (fr (cells m h) b n))),
                trace := trace m @ [Called Read h]\<rparr>,
              Some (fst (snd (snd (fr (cells m h) b n)))),
              Some (snd (snd (snd (fr (cells m h) b n)))))) \<and>
     (\<forall>b n. 0 < n \<longrightarrow> mac_verify ml m h (Some b) n =
        Some (fst (fv (cells m h) b n),
              m\<lparr>cells := (cells m)(h := snd (fv (cells m h) b n)),
                trace := trace m @ [Called Verify h]\<rparr>)) \<and>
     mac_reset ml m h =
        Some (fst (fz (cells m h)),
              m\<lparr>cells := (cells m)(h := snd (fz (cells m h))),
                trace := trace m @ [Called Reset h]\<rparr>) \<and>
     (\<forall>buffer buflen. gcry_mac_ctl ml m h GCRYCTL_RESET buffer buflen =
        Some (gcry_error (fst (fz (cells m h))),
              m\<lparr>cells := (cells m)(h := snd (fz (cells m h))),
                trace := trace m @ [Called Reset h]\<rparr>))"
proof -
  from open_allocation [OF keep ok] obtain i where
    i: "resolves ml a i" "hd_spec (cells m2 h) = Some i" by blast
  from open_lifetime [OF keep start ok later]
  have l: "owner m h \<noteq> None" "hd_spec (cells m h) = hd_spec (cells m2 h)" "bound_handle ml m h"
    by simp_all
  from bound_handle_ops [OF l(3)] l(2) i(2) obtain t where
    t: "ops (ml ! i) = Some t" "complete_ops t" "hd_ops ml m h = Some t" by auto
  from t(2) obtain fk fw fr fv fz where
    f: "ops_setkey t = Some fk" "ops_write t = Some fw" "ops_read t = Some fr"
      "ops_verify t = Some fv" "ops_reset t = Some fz"
    by (auto simp: complete_ops_def)
  have sk: "\<forall>key keylen. mac_setkey ml m h key keylen =
        (if 0 < keylen \<and> key = None then Some (GPG_ERR_INV_ARG, m)
         else Some (fst (fk (cells m h) key keylen),
                    m\<lparr>cells := (cells m)(h := snd (fk (cells m h) key keylen)),
                      trace := trace m @ [Called Setkey h]\<rparr>))"
    using mac_setkey_forward [OF t(3) f(1)] mac_setkey_null [OF t(3)] by auto
  have wr: "\<forall>inbuf inlen. mac_write ml m h inbuf inlen =
        (if 0 < inlen \<and> inbuf = None then Some (GPG_ERR_INV_ARG, m)
         else Some (fst (fw (cells m h) inbuf inlen),
                    m\<lparr>cells := (cells m)(h := snd (fw (cells m h) inbuf inlen)),
                      trace := trace m @ [Called Write h]\<rparr>))"
    using mac_write_forward [OF t(3) f(2)] mac_write_null [OF t(3)] by auto
  have rd: "\<forall>b n. 0 < n \<longrightarrow> mac_read ml m h (Some b) (Some n) =
        Some (fst (fr (cells m h) b n),
              m\<lparr>cells := (cells m)(h := fst (snd (fr (cells m h) b n))),
                trace := trace m @ [Called Read h]\<rparr>,
              Some (fst (snd (snd (fr (cells m h) b n)))),
              Some (snd (snd (snd (fr (cells m h) b n)))))"
    using mac_read_forward [OF t(3) f(3)] by blast
  have vf: "\<forall>b n. 0 < n \<longrightarrow> mac_verify ml m h (Some b) n =
        Some (fst (fv (cells m h) b n),
              m\<lparr>cells := (cells m)(h := snd (fv (cells m h) b n)),
                trace := trace m @ [Called Verify h]\<rparr>)"
    using mac_verify_forward [OF t(3) f(4)] by blast
  have rs: "mac_reset ml m h =
        Some (fst (fz (cells m h)),
              m\<lparr>cells := (cells m)(h := snd (fz (cells m h))),
                trace := trace m @ [Called Reset h]\<rparr>)"
    by (rule mac_reset_forward [OF t(3) f(5)])
  have ct: "\<forall>buffer buflen. gcry_mac_ctl ml m h GCRYCTL_RESET buffer buflen =
        Some (gcry_error (fst (fz (cells m h))),
              m\<lparr>cells := (cells m)(h := snd (fz (cells m h))),
                trace := trace m @ [Called Reset h]\<rparr>)"
    using gcry_mac_ctl_reset [OF t(3) f(5)] by blast
  have "hd_spec (cells m h) = Some i" using l(2) i(2) by simp
  with i l(1) t(1,2) f sk wr rd vf rs ct show ?thesis
    by (intro exI [of _ i] exI [of _ t] exI [of _ fk] exI [of _ fw] exI [of _ fr]
        exI [of _ fv] exI [of _ fz] conjI)
qed

lemma open_normal_ok:
  "gcry_mac_open sample_list fresh_memory 101 0 None = (0, Some 10, opened_memory)"
  by (simp add: open_sample_101 opened_memory_eq)

lemma run_after_normal:
  "run sample_list opened_memory
     [Req_write 10 (Some [7, 8, 9]) 3, Req_read 10 (Some [0, 0, 0, 0]) (Some 9)] =
   Some (opened_memory
          \<lparr>cells := (cells opened_memory)
             (10 := \<lparr>hd_magic = CTX_MAGIC_NORMAL, hd_spec = Some 0, hd_algo = 101,
                     hd_gcry_ctx = None, hd_u = 4\<rparr>),
           trace := [Alloc Normal 10, Called Open 10, Called Write 10, Called Read 10]\<rparr>)"
proof -
  have w: "ops_write counter_ops = Some (\<lambda>h inbuf inlen. (0, h\<lparr>hd_u := hd_u h + inlen\<rparr>))"
    and r: "ops_read counter_ops = Some (\<lambda>h outbuf outlen. (0, h, outbuf, min outlen 4))"
    by (simp_all add: counter_ops_def)
  have c: "cells opened_memory 10 =
             \<lparr>hd_magic = CTX_MAGIC_NORMAL, hd_spec = Some 0, hd_algo = 101,
              hd_gcry_ctx = None, hd_u = 1\<rparr>"
    and tr: "trace opened_memory = [Alloc Normal 10, Called Open 10]"
    and ow: "owner opened_memory 10 = Some Normal"
    by (simp_all add: opened_memory_eq)
  have s1: "mac_write sample_list opened_memory 10 (Some [7, 8, 9]) 3 =
     Some (0, opened_memory
          \<lparr>cells := (cells opened_memory)
             (10 := \<lparr>hd_magic = CTX_MAGIC_NORMAL, hd_spec = Some 0, hd_algo = 101,
                     hd_gcry_ctx = None, hd_u = 4\<rparr>),
           trace := [Alloc Normal 10, Called Open 10, Called Write 10]\<rparr>)"
    by (simp add: mac_write_forward [OF hd_ops_opened w] c tr)
  let ?m1 = "opened_memory
          \<lparr>cells := (cells opened_memory)
             (10 := \<lparr>hd_magic = CTX_MAGIC_NORMAL, hd_spec = Some 0, hd_algo = 101,
                     hd_gcry_ctx = None, hd_u = 4\<rparr>),
           trace := [Alloc Normal 10, Called Open 10, Called Write 10]\<rparr>"
  have h1: "hd_ops sample_list ?m1 10 = Some counter_ops"
    by (simp add: hd_ops_def ow sample_list_def)
  have s2: "mac_read sample_list ?m1 10 (Some [0, 0, 0, 0]) (Some 9) =
     Some (0, opened_memory
          \<lparr>cells := (cells opened_memory)
             (10 := \<lparr>hd_magic = CTX_MAGIC_NORMAL, hd_spec = Some 0, hd_algo = 101,
                     hd_gcry_ctx = None, hd_u = 4\<rparr>),
           trace := [Alloc Normal 10, Called Open 10, Called Write 10, Called Read 10]\<rparr>,
           Some [0, 0, 0, 0], Some 4)"
    by (simp add: mac_read_forward [OF h1 r])
  show ?thesis
    by (simp add: gcry_mac_write_def gcry_mac_read_def s1 s2)
qed

theorem opened_handles_stay_complete_witness:
  "registry_keeps_binding sample_list \<and> pristine fresh_memory \<and>
   run sample_list fresh_memory [] = Some fresh_memory \<and>
   gcry_mac_open sample_list fresh_memory 101 0 None = (0, Some 10, opened_memory) \<and>
   Req_close 10 \<notin> set [Req_write 10 (Some [7, 8, 9]) 3, Req_read 10 (Some [0, 0, 0, 0]) (Some 9)] \<and>
   (\<exists>m. run sample_list opened_memory
           [Req_write 10 (Some [7, 8, 9]) 3, Req_read 10 (Some [0, 0, 0, 0]) (Some 9)] = Some m \<and>
        hd_spec (cells m 10) = Some 0 \<and> owner m 10 \<noteq> None \<and>
        complete_ops counter_ops \<and>
        mac_reset sample_list m 10 =
          Some (0, m\<lparr>cells := (cells m)(10 := (cells m 10)\<lparr>hd_u := 1\<rparr>),
                     trace := trace m @ [Called Reset 10]\<rparr>))"
proof -
  let ?rs = "[Req_write 10 (Some [7, 8, 9]) 3, Req_read 10 (Some [0, 0, 0, 0]) (Some 9)]"
  let ?m = "opened_memory
          \<lparr>cells := (cells opened_memory)
             (10 := \<lparr>hd_magic = CTX_MAGIC_NORMAL, hd_spec = Some 0, hd_algo = 101,
                     hd_gcry_ctx = None, hd_u = 4\<rparr>),
           trace := [Alloc Normal 10, Called Open 10, Called Write 10, Called Read 10]\<rparr>"
  have r0: "run sample_list fresh_memory [] = Some fresh_memory" by simp
  have nc: "Req_close 10 \<notin> set ?rs" by simp
  from opened_handles_stay_complete [OF sample_keeps_binding fresh_pristine r0 open_normal_ok
      run_after_normal nc]
  obtain i t fz where
    i: "resolves sample_list 101 i" "hd_spec (cells ?m 10) = Some i" "owner ?m 10 \<noteq> None"
      "ops (sample_list ! i) = Some t" "complete_ops t" "ops_reset t = Some fz"
      "mac_reset sample_list ?m 10 =
        Some (fst (fz (cells ?m 10)),
              ?m\<lparr>cells := (cells ?m)(10 := snd (fz (cells ?m 10))),
                trace := trace ?m @ [Called Reset 10]\<rparr>)"
    by (elim exE conjE) blast
  from i(2) have i0: "i = 0" by simp
  with i(4) have t: "t = counter_ops" by (simp add: sample_list_def)
  with i(6) have fz: "fz = (\<lambda>h. (0, h\<lparr>hd_u := 1\<rparr>))" by (simp add: counter_ops_def)
  from i(7) have "mac_reset sample_list ?m 10 =
          Some (0, ?m\<lparr>cells := (cells ?m)(10 := (cells ?m 10)\<lparr>hd_u := 1\<rparr>),
                     trace := trace ?m @ [Called Reset 10]\<rparr>)"
    unfolding fz by simp
  with i(2,3,5) i0 t run_after_normal
  have "\<exists>m. run sample_list opened_memory ?rs = Some m \<and>
        hd_spec (cells m 10) = Some 0 \<and> owner m 10 \<noteq> None \<and>
        complete_ops counter_ops \<and>
        mac_reset sample_list m 10 =
          Some (0, m\<lparr>cells := (cells m)(10 := (cells m 10)\<lparr>hd_u := 1\<rparr>),
                     trace := trace m @ [Called Reset 10]\<rparr>)"
    by (intro exI [of _ ?m]) simp
  with sample_keeps_binding fresh_pristine r0 open_normal_ok nc show ?thesis
    by (intro conjI)
qed

end
